theory Spec2Isabelle
  imports Complex_Main
begin

section \<open>The batch job submitter: \<^verbatim>\<open>CI/batch/submit-job.py\<close>\<close>

subsection \<open>Strings and the job name\<close>

text \<open>
  A Python \<^verbatim>\<open>str\<close> is a sequence of Unicode code points. The job name is the one
  string whose characters the script inspects, so it is modelled as a list of code
  points (natural numbers); every other string is only compared, stored or printed
  and is an ordinary HOL string.
\<close>

type_synonym pystr = "nat list"

definition pystr_of :: "string \<Rightarrow> pystr" where
  "pystr_of s = map of_char s"

text \<open>
  The character class \<^verbatim>\<open>[A-Za-z0-9_\-]\<close> of line 126. The pattern is compiled without
  flags, so the three ranges are ranges of code points.
\<close>

definition jobName_class :: "nat \<Rightarrow> bool" where
  "jobName_class c \<longleftrightarrow>
     (of_char CHR ''A'' \<le> c \<and> c \<le> of_char CHR ''Z'') \<or>
     (of_char CHR ''a'' \<le> c \<and> c \<le> of_char CHR ''z'') \<or>
     (of_char CHR ''0'' \<le> c \<and> c \<le> of_char CHR ''9'') \<or>
     c = of_char CHR ''_'' \<or> c = of_char CHR ''-''"

text \<open>
  \<^verbatim>\<open>re.sub('[^A-Za-z0-9_\-]', '', s)\<close>: every character matched by the negated class is
  replaced by the empty string, the others stay in order.
\<close>

definition re_sub_jobName :: "pystr \<Rightarrow> pystr" where
  "re_sub_jobName s = filter jobName_class s"

text \<open>\<^verbatim>\<open>jobName = re.sub(...)[:128]\<close>\<close>

definition sanitize_jobName :: "pystr \<Rightarrow> pystr" where
  "sanitize_jobName s = take 128 (re_sub_jobName s)"

subsection \<open>The job type registry\<close>

record job_info =
  job_definition :: string
  job_queue :: string

text \<open>The dictionary literal of lines 13 to 46, in source order.\<close>

definition job_type_info :: "(string \<times> job_info) list" where
  "job_type_info =
    [(''CI-CPU'', \<lparr>job_definition = ''autogluon-ci-cpu:3'', job_queue = ''CI-CPU''\<rparr>),
     (''CI-GPU'', \<lparr>job_definition = ''autogluon-ci-gpu:3'', job_queue = ''CI-GPU''\<rparr>),
     (''CI-WASM'', \<lparr>job_definition = ''autogluon-ci-wasm:1'', job_queue = ''CI-CPU''\<rparr>),
     (''CI-MULTI-GPU'',
        \<lparr>job_definition = ''autogluon-ci-multi-gpu:6'', job_queue = ''CI-MULTI-GPU''\<rparr>),
     (''CI-CPU-PUSH'', \<lparr>job_definition = ''autogluon-ci-cpu-push:3'', job_queue = ''CI-CPU''\<rparr>),
     (''CI-GPU-PUSH'', \<lparr>job_definition = ''autogluon-ci-gpu-push:4'', job_queue = ''CI-GPU''\<rparr>),
     (''CI-WASM-PUSH'', \<lparr>job_definition = ''autogluon-ci-wasm-push:2'', job_queue = ''CI-CPU''\<rparr>),
     (''CI-MULTI-GPU-PUSH'',
        \<lparr>job_definition = ''autogluon-ci-multi-gpu-push:2'', job_queue = ''CI-MULTI-GPU''\<rparr>)]"

text \<open>The exceptions that the two programs can raise.\<close>

datatype py_error = KeyError | AssertionError | IndexError | RuntimeError

text \<open>\<^verbatim>\<open>job_type_info[jobType]\<close>: subscripting a dictionary raises KeyError on a missing key.\<close>

definition job_type_lookup :: "string \<Rightarrow> py_error + job_info" where
  "job_type_lookup jobType =
     (case map_of job_type_info jobType of None \<Rightarrow> Inl KeyError | Some info \<Rightarrow> Inr info)"

text \<open>\<^verbatim>\<open>choices=job_type_info.keys()\<close> of the \<^verbatim>\<open>--job-type\<close> argument.\<close>

definition job_type_choices :: "string list" where
  "job_type_choices = map fst job_type_info"

subsection \<open>Command line arguments\<close>

record args =
  arg_name :: pystr
  arg_job_type :: string
  arg_source_ref :: string
  arg_work_dir :: string
  arg_saved_output :: string
  arg_save_path :: string
  arg_command :: string
  arg_remote :: string
  arg_safe_to_use_script :: bool
  arg_wait :: bool
  arg_timeout :: "int option"

subsection \<open>The services and what the script does to them\<close>

text \<open>
  The batch and log services are outside the program. Their answers are inputs of the
  model; the calls the script makes and the lines it prints are recorded, in order, as
  events.
\<close>

record submit_job_kwargs =
  sj_jobName :: pystr
  sj_jobQueue :: string
  sj_jobDefinition :: string
  sj_parameters :: "(string \<times> string) list"
  sj_timeout :: "int option"

record get_log_events_kwargs =
  kw_logGroupName :: string
  kw_logStreamName :: string
  kw_startTime :: int
  kw_startFromHead :: bool
  kw_nextToken :: "string option"

record log_event =
  ev_timestamp :: int
  ev_message :: string

record log_page =
  lp_events :: "log_event list"
  lp_nextForwardToken :: "string option"

text \<open>
  The part of a \<^verbatim>\<open>describe_jobs\<close> answer the script reads: the status of the first job
  and the log stream name of its container (a value that may be \<^verbatim>\<open>None\<close>).
\<close>

record describe_jobs_response =
  dj_status :: string
  dj_logStreamName :: "string option"

datatype event =
    SubmitJob submit_job_kwargs
  | PrintSubmitted pystr string string
  | GetLogEvents get_log_events_kwargs log_page
  | PrintLogLine int string
  | PrintRule
  | PrintJobStatus pystr string string
  | PrintRunning pystr string
  | PrintOutputHeader string
  | PrintStatusUpdate pystr string string char

text \<open>
  The log service at one moment answers a request with a page. One element of the list
  given to a \<^verbatim>\<open>printLogs\<close> call answers one \<^verbatim>\<open>get_log_events\<close> request of that call, so
  the answers may depend on the request and may change from request to request.
\<close>

type_synonym log_service = "get_log_events_kwargs \<Rightarrow> log_page"

text \<open>Truth value of a Python string or \<^verbatim>\<open>None\<close>.\<close>

definition truthy :: "string option \<Rightarrow> bool" where
  "truthy t = (case t of None \<Rightarrow> False | Some s \<Rightarrow> s \<noteq> [])"

subsection \<open>\<^verbatim>\<open>printLogs\<close>\<close>

text \<open>
  The \<^verbatim>\<open>for\<close> loop of lines 104 to 107: every event sets \<^verbatim>\<open>lastTimestamp\<close> and prints a
  line.
\<close>

fun print_events :: "int \<Rightarrow> event list \<Rightarrow> log_event list \<Rightarrow> int \<times> event list" where
  "print_events lastTimestamp out [] = (lastTimestamp, out)"
| "print_events lastTimestamp out (e # es) =
     print_events (ev_timestamp e) (out @ [PrintLogLine (ev_timestamp e) (ev_message e)]) es"

text \<open>
  The \<^verbatim>\<open>while True\<close> loop of lines 101 to 113. The result is \<^verbatim>\<open>None\<close> when the answers
  given run out before the loop breaks.
\<close>

fun printLogs_loop ::
  "get_log_events_kwargs \<Rightarrow> int \<Rightarrow> event list \<Rightarrow> log_service list \<Rightarrow> (int \<times> event list) option"
where
  "printLogs_loop kwargs lastTimestamp out [] = None"
| "printLogs_loop kwargs lastTimestamp out (svc # rest) =
     (let logEvents = svc kwargs;
          (lastTimestamp', out') =
             print_events lastTimestamp (out @ [GetLogEvents kwargs logEvents]) (lp_events logEvents);
          nextToken = lp_nextForwardToken logEvents
      in if truthy nextToken \<and> kw_nextToken kwargs \<noteq> nextToken
         then printLogs_loop (kwargs\<lparr>kw_nextToken := nextToken\<rparr>) lastTimestamp' out' rest
         else Some (lastTimestamp', out'))"

definition printLogs ::
  "string \<Rightarrow> string \<Rightarrow> int \<Rightarrow> event list \<Rightarrow> log_service list \<Rightarrow> (int \<times> event list) option"
where
  "printLogs logGroupName logStreamName startTime out svcs =
     printLogs_loop
       \<lparr>kw_logGroupName = logGroupName, kw_logStreamName = logStreamName,
        kw_startTime = startTime, kw_startFromHead = True, kw_nextToken = None\<rparr>
       (startTime - 1) out svcs"

subsection \<open>\<^verbatim>\<open>main\<close>: submission and the polling loop\<close>

text \<open>
  What the services answer during one run: the job id of the \<^verbatim>\<open>submit_job\<close> answer and,
  for every iteration of the polling loop, the \<^verbatim>\<open>describe_jobs\<close> answer and the log
  service as it answers during that iteration.
\<close>

record poll_input =
  pi_describe :: describe_jobs_response
  pi_logs :: "log_service list"

record env =
  env_jobId :: string
  env_polls :: "poll_input list"

text \<open>The local variables of lines 158 to 162, with the events so far.\<close>

record poll_state =
  spinner :: nat
  running :: bool
  status_set :: "string set"
  startTime :: int
  logStreamName :: "string option"
  out :: "event list"

text \<open>
  How a run ends: the process exits with a code; or the answers given run out while the
  polling loop is still going (\<open>Polling\<close>) or inside \<^verbatim>\<open>printLogs\<close> (\<open>Fetching\<close>).
\<close>

datatype outcome = Exited nat | Polling | Fetching

definition spin :: string where
  "spin = [CHR ''-'', CHR ''/'', CHR ''|'', CHR 0x5C, CHR ''-'', CHR ''/'', CHR ''|'', CHR 0x5C]"

definition logGroupName :: string where
  "logGroupName = ''/aws/batch/job''"

text \<open>\<^verbatim>\<open>sys.exit(b)\<close> for a boolean: \<^verbatim>\<open>True\<close> is the integer 1, \<^verbatim>\<open>False\<close> is 0.\<close>

definition sys_exit :: "bool \<Rightarrow> nat" where
  "sys_exit b = (if b then 1 else 0)"

text \<open>\<^verbatim>\<open>if logStreamName: startTime = printLogs(logGroupName, logStreamName, startTime) + 1\<close>\<close>

definition fetch_logs :: "poll_state \<Rightarrow> log_service list \<Rightarrow> poll_state option" where
  "fetch_logs st svcs =
     (case logStreamName st of
        None \<Rightarrow> Some st
      | Some stream \<Rightarrow>
          if stream = [] then Some st
          else (case printLogs logGroupName stream (startTime st) (out st) svcs of
                  None \<Rightarrow> None
                | Some (lastTimestamp, out') \<Rightarrow>
                    Some (st\<lparr>startTime := lastTimestamp + 1, out := out'\<rparr>)))"

text \<open>\<^verbatim>\<open>if logStreamName: print('Output [{}]: ...')\<close> of lines 179 and 180.\<close>

definition output_header :: "string option \<Rightarrow> event list" where
  "output_header stream =
     (case stream of
        None \<Rightarrow> []
      | Some s \<Rightarrow> if s = [] then [] else [PrintOutputHeader s])"

text \<open>One iteration of \<^verbatim>\<open>while wait\<close> (lines 164 to 187), after the sleep.\<close>

definition poll_step :: "pystr \<Rightarrow> string \<Rightarrow> poll_state \<Rightarrow> poll_input \<Rightarrow> outcome \<times> poll_state" where
  "poll_step jobName jobId st inp =
     (let status = dj_status (pi_describe inp) in
      if status = ''SUCCEEDED'' \<or> status = ''FAILED'' then
        (case fetch_logs st (pi_logs inp) of
           None \<Rightarrow> (Fetching, st)
         | Some st1 \<Rightarrow>
             (Exited (sys_exit (status = ''FAILED'')),
              st1\<lparr>out := out st1 @ [PrintRule, PrintJobStatus jobName jobId status]\<rparr>))
      else if status = ''RUNNING'' then
        (let st1 = st\<lparr>logStreamName := dj_logStreamName (pi_describe inp)\<rparr>;
             st2 = (if \<not> running st1
                    then st1\<lparr>running := True,
                             out := out st1 @ [PrintRunning jobName jobId]
                                      @ output_header (logStreamName st1)\<rparr>
                    else st1)
         in case fetch_logs st2 (pi_logs inp) of
              None \<Rightarrow> (Fetching, st2)
            | Some st3 \<Rightarrow> (Polling, st3))
      else if status \<notin> status_set st then
        (Polling,
         st\<lparr>status_set := insert status (status_set st),
            out := out st @ [PrintStatusUpdate jobName jobId status
                               (spin ! (spinner st mod length spin))],
            spinner := spinner st + 1\<rparr>)
      else (Polling, st))"

text \<open>The loop \<^verbatim>\<open>while wait\<close> with \<^verbatim>\<open>wait\<close> true, over the answers given.\<close>

fun poll_loop :: "pystr \<Rightarrow> string \<Rightarrow> poll_state \<Rightarrow> poll_input list \<Rightarrow> outcome \<times> poll_state" where
  "poll_loop jobName jobId st [] = (Polling, st)"
| "poll_loop jobName jobId st (inp # inps) =
     (case poll_step jobName jobId st inp of
        (Polling, st') \<Rightarrow> poll_loop jobName jobId st' inps
      | r \<Rightarrow> r)"

text \<open>The keyword arguments of \<^verbatim>\<open>batch.submit_job\<close> (lines 126 to 152).\<close>

definition submit_kwargs :: "args \<Rightarrow> job_info \<Rightarrow> submit_job_kwargs" where
  "submit_kwargs a info =
     \<lparr>sj_jobName = sanitize_jobName (arg_name a),
      sj_jobQueue = job_queue info,
      sj_jobDefinition = job_definition info,
      sj_parameters =
        [(''SOURCE_REF'', arg_source_ref a),
         (''WORK_DIR'', arg_work_dir a),
         (''SAVED_OUTPUT'', arg_saved_output a),
         (''SAVE_PATH'', arg_save_path a),
         (''COMMAND'', CHR 0x22 # arg_command a @ [CHR 0x22]),
         (''REMOTE'', arg_remote a),
         (''SAFE_TO_USE_SCRIPT'', if arg_safe_to_use_script a then ''True'' else ''False'')],
      sj_timeout = arg_timeout a\<rparr>"

definition initial_state :: "event list \<Rightarrow> poll_state" where
  "initial_state evs =
     \<lparr>spinner = 0, running = False, status_set = {}, startTime = 0,
      logStreamName = None, out = evs\<rparr>"

text \<open>
  \<^verbatim>\<open>main()\<close>. When \<^verbatim>\<open>wait\<close> is false the loop is not entered, \<^verbatim>\<open>main\<close> returns and the
  interpreter exits with code 0.
\<close>

definition main :: "args \<Rightarrow> env \<Rightarrow> py_error + (outcome \<times> poll_state)" where
  "main a e =
     (case job_type_lookup (arg_job_type a) of
        Inl err \<Rightarrow> Inl err
      | Inr info \<Rightarrow>
          (let kwargs = submit_kwargs a info;
               jobName = sj_jobName kwargs;
               jobId = env_jobId e;
               st = initial_state
                      [SubmitJob kwargs, PrintSubmitted jobName jobId (sj_jobQueue kwargs)]
           in if arg_wait a then Inr (poll_loop jobName jobId st (env_polls e))
              else Inr (Exited 0, st)))"

section \<open>Observations on a run of the submitter\<close>

text \<open>
  The statements below speak about what a run did: which requests it sent and which
  lines it printed. These functions read that off the list of events.
\<close>

definition log_request :: "event \<Rightarrow> (get_log_events_kwargs \<times> log_page) list" where
  "log_request ev = (case ev of GetLogEvents kw p \<Rightarrow> [(kw, p)] | _ \<Rightarrow> [])"

text \<open>The \<^verbatim>\<open>get_log_events\<close> requests of a run, each with the page it was answered with.\<close>

definition log_requests :: "event list \<Rightarrow> (get_log_events_kwargs \<times> log_page) list" where
  "log_requests evs = concat (map log_request evs)"

definition status_update :: "event \<Rightarrow> string list" where
  "status_update ev = (case ev of PrintStatusUpdate n i s g \<Rightarrow> [s] | _ \<Rightarrow> [])"

text \<open>The statuses of the one-line status updates printed, in the order of printing.\<close>

definition status_updates :: "event list \<Rightarrow> string list" where
  "status_updates evs = concat (map status_update evs)"

definition submitted :: "event \<Rightarrow> submit_job_kwargs list" where
  "submitted ev = (case ev of SubmitJob kw \<Rightarrow> [kw] | _ \<Rightarrow> [])"

text \<open>The \<^verbatim>\<open>submit_job\<close> requests of a run.\<close>

definition submissions :: "event list \<Rightarrow> submit_job_kwargs list" where
  "submissions evs = concat (map submitted evs)"

text \<open>The \<^verbatim>\<open>startTime\<close> of every log request of a run, in order: the watermarks used.\<close>

definition watermarks :: "event list \<Rightarrow> int list" where
  "watermarks evs = map (\<lambda>r. kw_startTime (fst r)) (log_requests evs)"

definition log_line :: "log_event \<Rightarrow> event" where
  "log_line e = PrintLogLine (ev_timestamp e) (ev_message e)"

text \<open>What one answered request of \<^verbatim>\<open>printLogs\<close> adds to the events.\<close>

definition page_events :: "get_log_events_kwargs \<Rightarrow> log_page \<Rightarrow> event list" where
  "page_events kw p = GetLogEvents kw p # map log_line (lp_events p)"

text \<open>\<^verbatim>\<open>lastTimestamp\<close> after the events of one page.\<close>

definition last_timestamp :: "int \<Rightarrow> log_event list \<Rightarrow> int" where
  "last_timestamp l es = (if es = [] then l else ev_timestamp (last es))"

text \<open>
  The answer to a request carries a new token: one that is neither empty nor the token
  the request was made with.
\<close>

definition advances :: "get_log_events_kwargs \<Rightarrow> log_page \<Rightarrow> bool" where
  "advances kw p \<longleftrightarrow> truthy (lp_nextForwardToken p) \<and> kw_nextToken kw \<noteq> lp_nextForwardToken p"

text \<open>
  A paging sequence by forward token: every answer but the last carries a new token, the
  next request differs from the one before only in carrying that token, and the last
  answer carries no new token.
\<close>

fun token_chain :: "(get_log_events_kwargs \<times> log_page) list \<Rightarrow> bool" where
  "token_chain [] = False"
| "token_chain [(kw, p)] = (\<not> advances kw p)"
| "token_chain ((kw, p) # (kw', p') # xs) =
     (advances kw p \<and> kw' = kw\<lparr>kw_nextToken := lp_nextForwardToken p\<rparr> \<and>
      token_chain ((kw', p') # xs))"

text \<open>
  The log service's contract for \<^verbatim>\<open>startTime\<close>: events earlier than the requested start
  time are not included in an answer.
\<close>

definition honours_startTime :: "log_service \<Rightarrow> bool" where
  "honours_startTime svc \<longleftrightarrow>
     (\<forall>kw. \<forall>ev \<in> set (lp_events (svc kw)). kw_startTime kw \<le> ev_timestamp ev)"

text \<open>
  The log service has reached the end of the stream: a request that carries a token is
  answered without a new token (the token comes back unchanged, or empty).
\<close>

definition echoes :: "log_service \<Rightarrow> bool" where
  "echoes svc \<longleftrightarrow> (\<forall>kw. kw_nextToken kw \<noteq> None \<longrightarrow> \<not> advances kw (svc kw))"

text \<open>
  The answers given to one \<^verbatim>\<open>printLogs\<close> call let it finish: after the first answer the
  service reaches the end of the stream at some request.
\<close>

definition reaches_end :: "log_service list \<Rightarrow> bool" where
  "reaches_end svcs \<longleftrightarrow> (\<exists>svc \<in> set (tl svcs). echoes svc)"

definition terminal :: "string \<Rightarrow> bool" where
  "terminal s \<longleftrightarrow> s = ''SUCCEEDED'' \<or> s = ''FAILED''"

text \<open>A status that is neither terminal nor RUNNING.\<close>

definition other_status :: "string \<Rightarrow> bool" where
  "other_status s \<longleftrightarrow> \<not> terminal s \<and> s \<noteq> ''RUNNING''"

text \<open>The statuses the batch service reports, one per iteration of the polling loop.\<close>

definition statuses :: "poll_input list \<Rightarrow> string list" where
  "statuses inps = map (\<lambda>inp. dj_status (pi_describe inp)) inps"

text \<open>A list without its repetitions: every element stays where it occurs first.\<close>

fun first_occurrences :: "'a list \<Rightarrow> 'a list" where
  "first_occurrences [] = []"
| "first_occurrences (x # xs) = x # filter (\<lambda>y. y \<noteq> x) (first_occurrences xs)"

text \<open>The status update one iteration prints, if any.\<close>

definition new_update :: "poll_state \<Rightarrow> string \<Rightarrow> string list" where
  "new_update st s = (if other_status s \<and> s \<notin> status_set st then [s] else [])"

text \<open>Lines 175 to 180: the state of a RUNNING iteration before its logs are fetched.\<close>

definition enter_running :: "pystr \<Rightarrow> string \<Rightarrow> poll_state \<Rightarrow> string option \<Rightarrow> poll_state" where
  "enter_running n i st stream =
     (if running st then st\<lparr>logStreamName := stream\<rparr>
      else st\<lparr>logStreamName := stream, running := True,
              out := out st @ [PrintRunning n i] @ output_header stream\<rparr>)"

text \<open>The state in which the polling loop starts, after the job was submitted.\<close>

definition submitted_state :: "args \<Rightarrow> env \<Rightarrow> job_info \<Rightarrow> poll_state" where
  "submitted_state a e info =
     initial_state [SubmitJob (submit_kwargs a info),
       PrintSubmitted (sanitize_jobName (arg_name a)) (env_jobId e) (job_queue info)]"

text \<open>The characters a job name may hold, written out.\<close>

definition allowed_jobName_chars :: string where
  "allowed_jobName_chars =
     ''ABCDEFGHIJKLMNOPQRSTUVWXYZabcdefghijklmnopqrstuvwxyz0123456789_-''"

section \<open>A sample run of the submitter\<close>

text \<open>
  Concrete inputs, used to run the model: a job named \<^verbatim>\<open>my job/#1_a-b\<close> of type CI-GPU is
  submitted with \<^verbatim>\<open>--wait\<close>. The batch service reports SUBMITTED, RUNNABLE, SUBMITTED
  again, RUNNING (with the log stream \<^verbatim>\<open>s\<close>) and FAILED. While the job runs the log service
  first answers with one event five milliseconds after the requested start and the token
  \<^verbatim>\<open>f/1\<close>; at the end of the stream it answers with an empty page and the token it was
  given (\<^verbatim>\<open>f/1\<close> when it was given none).
\<close>

definition example_args :: args where
  "example_args =
     \<lparr>arg_name = pystr_of ''my job/#1_a-b'', arg_job_type = ''CI-GPU'',
      arg_source_ref = ''master'', arg_work_dir = ''scripts/preprocess'',
      arg_saved_output = ''None'', arg_save_path = ''batch/temp/x'',
      arg_command = ''git rev-parse HEAD | tee stdout.log'',
      arg_remote = ''https://github.com/autogluon/autogluon'',
      arg_safe_to_use_script = False, arg_wait = True, arg_timeout = None\<rparr>"

definition fresh_page :: log_service where
  "fresh_page kw =
     \<lparr>lp_events = [\<lparr>ev_timestamp = kw_startTime kw + 5, ev_message = ''line''\<rparr>],
      lp_nextForwardToken = Some ''f/1''\<rparr>"

definition end_page :: log_service where
  "end_page kw =
     \<lparr>lp_events = [],
      lp_nextForwardToken = (case kw_nextToken kw of None \<Rightarrow> Some ''f/1'' | Some t \<Rightarrow> Some t)\<rparr>"

definition example_polls :: "poll_input list" where
  "example_polls =
     [\<lparr>pi_describe = \<lparr>dj_status = ''SUBMITTED'', dj_logStreamName = None\<rparr>,
       pi_logs = [end_page, end_page]\<rparr>,
      \<lparr>pi_describe = \<lparr>dj_status = ''RUNNABLE'', dj_logStreamName = None\<rparr>,
       pi_logs = [end_page, end_page]\<rparr>,
      \<lparr>pi_describe = \<lparr>dj_status = ''SUBMITTED'', dj_logStreamName = None\<rparr>,
       pi_logs = [end_page, end_page]\<rparr>,
      \<lparr>pi_describe = \<lparr>dj_status = ''RUNNING'', dj_logStreamName = Some ''s''\<rparr>,
       pi_logs = [fresh_page, end_page]\<rparr>,
      \<lparr>pi_describe = \<lparr>dj_status = ''FAILED'', dj_logStreamName = Some ''s''\<rparr>,
       pi_logs = [end_page, end_page]\<rparr>]"

definition example_env :: env where
  "example_env = \<lparr>env_jobId = ''j1'', env_polls = example_polls\<rparr>"

definition example_kwargs :: "int \<Rightarrow> string option \<Rightarrow> get_log_events_kwargs" where
  "example_kwargs t tok =
     \<lparr>kw_logGroupName = ''/aws/batch/job'', kw_logStreamName = ''s'', kw_startTime = t,
      kw_startFromHead = True, kw_nextToken = tok\<rparr>"

definition example_submit :: submit_job_kwargs where
  "example_submit =
     \<lparr>sj_jobName = pystr_of ''myjob1_a-b'', sj_jobQueue = ''CI-GPU'',
      sj_jobDefinition = ''autogluon-ci-gpu:3'',
      sj_parameters =
        [(''SOURCE_REF'', ''master''), (''WORK_DIR'', ''scripts/preprocess''),
         (''SAVED_OUTPUT'', ''None''), (''SAVE_PATH'', ''batch/temp/x''),
         (''COMMAND'', CHR 0x22 # ''git rev-parse HEAD | tee stdout.log'' @ [CHR 0x22]),
         (''REMOTE'', ''https://github.com/autogluon/autogluon''),
         (''SAFE_TO_USE_SCRIPT'', ''False'')],
      sj_timeout = None\<rparr>"

text \<open>What the model computes for the sample run: exit code 1 and this state.\<close>

definition example_final :: poll_state where
  "example_final =
     \<lparr>spinner = 2, running = True, status_set = {''RUNNABLE'', ''SUBMITTED''}, startTime = 6,
      logStreamName = Some ''s'',
      out =
        [SubmitJob example_submit,
         PrintSubmitted (pystr_of ''myjob1_a-b'') ''j1'' ''CI-GPU'',
         PrintStatusUpdate (pystr_of ''myjob1_a-b'') ''j1'' ''SUBMITTED'' CHR ''-'',
         PrintStatusUpdate (pystr_of ''myjob1_a-b'') ''j1'' ''RUNNABLE'' CHR ''/'',
         PrintRunning (pystr_of ''myjob1_a-b'') ''j1'',
         PrintOutputHeader ''s'',
         GetLogEvents (example_kwargs 0 None) (fresh_page (example_kwargs 0 None)),
         PrintLogLine 5 ''line'',
         GetLogEvents (example_kwargs 0 (Some ''f/1'')) (end_page (example_kwargs 0 (Some ''f/1''))),
         GetLogEvents (example_kwargs 6 None) (end_page (example_kwargs 6 None)),
         GetLogEvents (example_kwargs 6 (Some ''f/1'')) (end_page (example_kwargs 6 (Some ''f/1''))),
         PrintRule,
         PrintJobStatus (pystr_of ''myjob1_a-b'') ''j1'' ''FAILED'']\<rparr>"

text \<open>A second run: the first answer of the batch service is already SUCCEEDED.\<close>

definition quick_env :: env where
  "quick_env =
     \<lparr>env_jobId = ''j2'',
      env_polls =
        [\<lparr>pi_describe = \<lparr>dj_status = ''SUCCEEDED'', dj_logStreamName = None\<rparr>,
          pi_logs = [end_page, end_page]\<rparr>]\<rparr>"

definition quick_final :: poll_state where
  "quick_final =
     \<lparr>spinner = 0, running = False, status_set = {}, startTime = 0, logStreamName = None,
      out =
        [SubmitJob example_submit,
         PrintSubmitted (pystr_of ''myjob1_a-b'') ''j2'' ''CI-GPU'',
         PrintRule,
         PrintJobStatus (pystr_of ''myjob1_a-b'') ''j2'' ''SUCCEEDED'']\<rparr>"

text \<open>
  A third run, with a log service that does not keep to the requested start time. The
  job is RUNNING at three polls. At the first the service delivers an event of timestamp
  100, at the second an event of timestamp 3 although the request starts at 101, at the
  third nothing. No answer carries a token.
\<close>

definition late_page :: log_service where
  "late_page kw =
     \<lparr>lp_events = [\<lparr>ev_timestamp = 100, ev_message = ''late''\<rparr>], lp_nextForwardToken = None\<rparr>"

definition old_page :: log_service where
  "old_page kw =
     \<lparr>lp_events = [\<lparr>ev_timestamp = 3, ev_message = ''old''\<rparr>], lp_nextForwardToken = None\<rparr>"

definition no_page :: log_service where
  "no_page kw = \<lparr>lp_events = [], lp_nextForwardToken = None\<rparr>"

definition backwards_env :: env where
  "backwards_env =
     \<lparr>env_jobId = ''j3'',
      env_polls =
        [\<lparr>pi_describe = \<lparr>dj_status = ''RUNNING'', dj_logStreamName = Some ''s''\<rparr>,
          pi_logs = [late_page]\<rparr>,
         \<lparr>pi_describe = \<lparr>dj_status = ''RUNNING'', dj_logStreamName = Some ''s''\<rparr>,
          pi_logs = [old_page]\<rparr>,
         \<lparr>pi_describe = \<lparr>dj_status = ''RUNNING'', dj_logStreamName = Some ''s''\<rparr>,
          pi_logs = [no_page]\<rparr>]\<rparr>"

text \<open>What the model computes for the third run, still polling after the three answers.\<close>

definition backwards_final :: poll_state where
  "backwards_final =
     \<lparr>spinner = 0, running = True, status_set = {}, startTime = 4, logStreamName = Some ''s'',
      out =
        [SubmitJob example_submit,
         PrintSubmitted (pystr_of ''myjob1_a-b'') ''j3'' ''CI-GPU'',
         PrintRunning (pystr_of ''myjob1_a-b'') ''j3'',
         PrintOutputHeader ''s'',
         GetLogEvents (example_kwargs 0 None) (late_page (example_kwargs 0 None)),
         PrintLogLine 100 ''late'',
         GetLogEvents (example_kwargs 101 None) (old_page (example_kwargs 101 None)),
         PrintLogLine 3 ''old'',
         GetLogEvents (example_kwargs 4 None) (no_page (example_kwargs 4 None))]\<rparr>"

section \<open>The categorical encoder: \<^verbatim>\<open>multimodal/models/categorical_mlp.py\<close>\<close>

subsection \<open>Embedding width\<close>

text \<open>
  Python floats are modelled by the real numbers: rounding of floating point arithmetic
  is not part of the model. \<^verbatim>\<open>int(x)\<close> on a float truncates towards zero.
\<close>

definition py_int :: "real \<Rightarrow> int" where
  "py_int x = (if 0 \<le> x then \<lfloor>x\<rfloor> else \<lceil>x\<rceil>)"

definition max_embedding_dim :: real where
  "max_embedding_dim = 100"

definition embed_exponent :: real where
  "embed_exponent = 0.56"

definition size_factor :: real where
  "size_factor = 1.0"

text \<open>
  Lines 63 to 65, for a column with \<open>c\<close> categories. A cardinality is a count, hence a
  natural number; \<^verbatim>\<open>0 ** 0.56\<close> is \<^verbatim>\<open>0.0\<close> in Python, as \<open>0 powr 0.56\<close> is here.
\<close>

definition embedding_dim_per_col :: "nat \<Rightarrow> int" where
  "embedding_dim_per_col num_categories_per_col =
     py_int (size_factor *
       max 2 (min max_embedding_dim (1.6 * real num_categories_per_col powr embed_exponent)))"

text \<open>
  The width as the specification words it, with \<open>round\<close> in place of \<^verbatim>\<open>int\<close>:
  \<^verbatim>\<open>round(size_factor * clamp(1.6 * cardinality^0.56, min=2, max=100))\<close>.
\<close>

definition spec_embedding_width :: "nat \<Rightarrow> int" where
  "spec_embedding_width c = round (1.0 * max 2 (min 100 (1.6 * real c powr 0.56)))"

text \<open>The width before it is made an integer.\<close>

definition clamped :: "nat \<Rightarrow> real" where
  "clamped c = max 2 (min 100 (1.6 * real c powr 0.56))"

subsection \<open>Tensors and the layers of the tensor library\<close>

text \<open>
  A two-dimensional tensor is a list of rows, one per element of the mini-batch. A tensor
  of category indices is a list of integers, one per element of the mini-batch.
\<close>

type_synonym tensor = "real list list"

record embedding =
  num_embeddings :: nat
  embedding_dim :: nat
  emb_weight :: tensor

text \<open>
  \<^verbatim>\<open>nn.Embedding(num_embeddings, embedding_dim)\<close>: a table of that shape. Its entries are
  set by the initialisation and by training; they are given by \<open>w\<close>.
\<close>

definition Embedding :: "(nat \<Rightarrow> nat \<Rightarrow> real) \<Rightarrow> nat \<Rightarrow> nat \<Rightarrow> embedding" where
  "Embedding w n d =
     \<lparr>num_embeddings = n, embedding_dim = d,
      emb_weight = map (\<lambda>r. map (w r) [0..<d]) [0..<n]\<rparr>"

text \<open>Looking indices up; an index outside the table is an error of the tensor library.\<close>

definition embedding_forward :: "embedding \<Rightarrow> int list \<Rightarrow> py_error + tensor" where
  "embedding_forward e ids =
     (if \<forall>i \<in> set ids. 0 \<le> i \<and> i < int (num_embeddings e)
      then Inr (map (\<lambda>i. emb_weight e ! nat i) ids)
      else Inl IndexError)"

record linear =
  lin_in_features :: nat
  lin_out_features :: nat
  lin_weight :: tensor
  lin_bias :: "real list"

text \<open>\<^verbatim>\<open>nn.Linear(in_features, out_features)\<close>: a weight of shape out by in, and a bias.\<close>

definition Linear_layer :: "(nat \<Rightarrow> nat \<Rightarrow> real) \<Rightarrow> (nat \<Rightarrow> real) \<Rightarrow> nat \<Rightarrow> nat \<Rightarrow> linear" where
  "Linear_layer w b n_in n_out =
     \<lparr>lin_in_features = n_in, lin_out_features = n_out,
      lin_weight = map (\<lambda>k. map (w k) [0..<n_in]) [0..<n_out],
      lin_bias = map b [0..<n_out]\<rparr>"

text \<open>
  Applying a linear layer to every row; a row of another width than \<^verbatim>\<open>in_features\<close> is an
  error of the tensor library.
\<close>

definition linear_forward :: "linear \<Rightarrow> tensor \<Rightarrow> py_error + tensor" where
  "linear_forward L x =
     (if \<forall>row \<in> set x. length row = lin_in_features L
      then Inr (map (\<lambda>row.
                  map (\<lambda>k. sum_list (map2 (*) (lin_weight L ! k) row) + lin_bias L ! k)
                    [0..<lin_out_features L]) x)
      else Inl RuntimeError)"

text \<open>
  \<^verbatim>\<open>torch.cat(features, dim=1)\<close>: the rows of the tensors side by side. An empty list, or
  tensors with different numbers of rows, are an error of the tensor library.
\<close>

definition torch_cat_dim1 :: "tensor list \<Rightarrow> py_error + tensor" where
  "torch_cat_dim1 ts =
     (case ts of
        [] \<Rightarrow> Inl RuntimeError
      | t # _ \<Rightarrow>
          if \<forall>u \<in> set ts. length u = length t
          then Inr (map (\<lambda>i. concat (map (\<lambda>u. u ! i) ts)) [0..<length t])
          else Inl RuntimeError)"

subsection \<open>The feed-forward network\<close>

text \<open>
  Modelled from the spec: the class \<^verbatim>\<open>MLP\<close> of \<^verbatim>\<open>models/mlp.py\<close> is not among the sources.
  The specification calls it a feed-forward transform that maps a feature vector to one
  of the configured output width. Here a network is the arguments it was built with and
  its forward function; the forward function of the network built k-th is a parameter
  of the model (\<open>p_mlp\<close> below), so nothing is assumed about what it computes.
\<close>

record mlp_args =
  mlp_in_features :: nat
  mlp_hidden_features :: nat
  mlp_out_features :: nat
  mlp_num_layers :: nat
  mlp_activation :: string
  mlp_dropout :: real
  mlp_normalization :: string

record mlp =
  mlp_built_with :: mlp_args
  mlp_forward :: "tensor \<Rightarrow> py_error + tensor"

text \<open>
  What initialisation and training decide: the forward function of every network, by
  the order in which the networks are built; the embedding tables, by column; the
  weight and bias of the head.
\<close>

record params =
  p_mlp :: "nat \<Rightarrow> mlp_args \<Rightarrow> tensor \<Rightarrow> py_error + tensor"
  p_embedding :: "nat \<Rightarrow> nat \<Rightarrow> nat \<Rightarrow> real"
  p_head_weight :: "nat \<Rightarrow> nat \<Rightarrow> real"
  p_head_bias :: "nat \<Rightarrow> real"

definition MLP :: "params \<Rightarrow> nat \<Rightarrow> mlp_args \<Rightarrow> mlp" where
  "MLP P k a = \<lparr>mlp_built_with = a, mlp_forward = p_mlp P k a\<rparr>"

subsection \<open>\<^verbatim>\<open>CategoricalMLP\<close>\<close>

datatype head_module = Identity | Linear linear

record categorical_mlp =
  prefix :: string
  out_features :: nat
  num_categories :: "(string \<times> nat) list"
  column_embeddings :: "embedding list"
  column_mlps :: "mlp list"
  aggregator_mlp :: mlp
  head :: head_module

text \<open>The arguments of \<^verbatim>\<open>__init__\<close> that are passed on to every \<^verbatim>\<open>MLP\<close>.\<close>

record mlp_options =
  opt_num_layers :: nat
  opt_activation :: string
  opt_dropout :: real
  opt_normalization :: string

definition mlp_arguments :: "mlp_options \<Rightarrow> nat \<Rightarrow> nat \<Rightarrow> nat \<Rightarrow> mlp_args" where
  "mlp_arguments opts n_in n_hidden n_out =
     \<lparr>mlp_in_features = n_in, mlp_hidden_features = n_hidden, mlp_out_features = n_out,
      mlp_num_layers = opt_num_layers opts, mlp_activation = opt_activation opts,
      mlp_dropout = opt_dropout opts, mlp_normalization = opt_normalization opts\<rparr>"

text \<open>
  \<^verbatim>\<open>__init__\<close> (lines 51 to 99). \<^verbatim>\<open>num_categories\<close> is a dictionary; only its values, in
  order, and its length are used. The loop of lines 62 to 83 builds, for the k-th column,
  an embedding and a network.
\<close>

definition CategoricalMLP ::
  "params \<Rightarrow> string \<Rightarrow> (string \<times> nat) list \<Rightarrow> nat \<Rightarrow> mlp_options \<Rightarrow> int \<Rightarrow> categorical_mlp"
where
  "CategoricalMLP P pre cats out_feats opts num_classes =
     (let columns = enumerate 0 (map snd cats) in
      \<lparr>prefix = pre,
       out_features = out_feats,
       num_categories = cats,
       column_embeddings =
         map (\<lambda>(k, c). Embedding (p_embedding P k) c (nat (embedding_dim_per_col c))) columns,
       column_mlps =
         map (\<lambda>(k, c). MLP P k
                (mlp_arguments opts (nat (embedding_dim_per_col c)) out_feats out_feats)) columns,
       aggregator_mlp =
         MLP P (length cats)
           (mlp_arguments opts (out_feats * length cats) (out_feats * length cats) out_feats),
       head =
         (if num_classes > 0
          then Linear (Linear_layer (p_head_weight P) (p_head_bias P) out_feats (nat num_classes))
          else Identity)\<rparr>)"

text \<open>
  Modelled from the spec: the constant \<^verbatim>\<open>CATEGORICAL\<close> of \<^verbatim>\<open>constants.py\<close> is not among the
  sources; the specification gives the input key as \<^verbatim>\<open>{prefix}_categorical\<close>.
\<close>

definition CATEGORICAL :: string where
  "CATEGORICAL = ''categorical''"

definition categorical_key :: "categorical_mlp \<Rightarrow> string" where
  "categorical_key m = prefix m @ ''_'' @ CATEGORICAL"

text \<open>The loop of lines 134 and 135 over the zipped columns.\<close>

fun column_features :: "(int list \<times> embedding \<times> mlp) list \<Rightarrow> py_error + tensor list" where
  "column_features [] = Inr []"
| "column_features ((categorical_id, emb, net) # rest) =
     (case embedding_forward emb categorical_id of
        Inl err \<Rightarrow> Inl err
      | Inr x \<Rightarrow>
          (case mlp_forward net x of
             Inl err \<Rightarrow> Inl err
           | Inr y \<Rightarrow>
               (case column_features rest of
                  Inl err \<Rightarrow> Inl err
                | Inr ys \<Rightarrow> Inr (y # ys))))"

definition head_forward :: "head_module \<Rightarrow> tensor \<Rightarrow> py_error + tensor" where
  "head_forward h x = (case h of Identity \<Rightarrow> Inr x | Linear L \<Rightarrow> linear_forward L x)"

text \<open>The dictionary \<^verbatim>\<open>{prefix: {LOGITS: logits, FEATURES: features}}\<close> that is returned.\<close>

record forward_output =
  fo_prefix :: string
  fo_logits :: tensor
  fo_features :: tensor

text \<open>Lines 133 to 144: \<^verbatim>\<open>forward\<close> after its assertion.\<close>

definition forward_body :: "categorical_mlp \<Rightarrow> int list list \<Rightarrow> py_error + forward_output" where
  "forward_body m ids =
     (case column_features (zip ids (zip (column_embeddings m) (column_mlps m))) of
        Inl err \<Rightarrow> Inl err
      | Inr features \<Rightarrow>
          (case torch_cat_dim1 features of
             Inl err \<Rightarrow> Inl err
           | Inr cat_features \<Rightarrow>
               (case mlp_forward (aggregator_mlp m) cat_features of
                  Inl err \<Rightarrow> Inl err
                | Inr feats \<Rightarrow>
                    (case head_forward (head m) feats of
                       Inl err \<Rightarrow> Inl err
                     | Inr logits \<Rightarrow>
                         Inr \<lparr>fo_prefix = prefix m, fo_logits = logits, fo_features = feats\<rparr>))))"

text \<open>
  \<^verbatim>\<open>forward\<close>. The batch is a dictionary; the value at the categorical key is the list of
  index tensors, one per column.
\<close>

definition forward :: "categorical_mlp \<Rightarrow> (string \<rightharpoonup> int list list) \<Rightarrow> py_error + forward_output" where
  "forward m batch =
     (case batch (categorical_key m) of
        None \<Rightarrow> Inl KeyError
      | Some ids \<Rightarrow>
          if length ids = length (column_embeddings m) then forward_body m ids
          else Inl AssertionError)"


subsection \<open>A sample encoder\<close>

text \<open>
  Concrete inputs, used to run the model: two columns with 1 and 3 categories, output
  width 2, and a mini-batch of two elements. Every network sums each row and repeats the
  sum over its output width; the embedding of category \<open>r\<close> is \<open>r + 1\<close> in every place;
  the head has weight 1 everywhere and bias \<open>k\<close> for class \<open>k\<close>.
\<close>

definition example_params :: params where
  "example_params =
     \<lparr>p_mlp = (\<lambda>k a x.
        if \<forall>row \<in> set x. length row = mlp_in_features a
        then Inr (map (\<lambda>row. replicate (mlp_out_features a) (sum_list row)) x)
        else Inl RuntimeError),
      p_embedding = (\<lambda>k r c. real r + 1),
      p_head_weight = (\<lambda>k j. 1),
      p_head_bias = (\<lambda>k. real k)\<rparr>"

definition example_options :: mlp_options where
  "example_options =
     \<lparr>opt_num_layers = 1, opt_activation = ''gelu'', opt_dropout = 0.5,
      opt_normalization = ''layer_norm''\<rparr>"

definition example_encoder :: "int \<Rightarrow> categorical_mlp" where
  "example_encoder num_classes =
     CategoricalMLP example_params ''enc'' [(''colour'', 1), (''size'', 3)] 2 example_options
       num_classes"

definition example_batch :: "string \<rightharpoonup> int list list" where
  "example_batch = [''enc_categorical'' \<mapsto> [[0, 0], [2, 1]]]"

text \<open>The same mini-batch with a third index tensor, one more than there are columns.\<close>

definition example_batch3 :: "string \<rightharpoonup> int list list" where
  "example_batch3 = [''enc_categorical'' \<mapsto> [[0, 0], [2, 1], [0, 0]]]"

text \<open>What a network of the sample encoder with input width \<open>n\<close> and output width 2 computes.\<close>

definition example_net :: "nat \<Rightarrow> tensor \<Rightarrow> py_error + tensor" where
  "example_net n x =
     (if \<forall>row \<in> set x. length row = n then Inr (map (\<lambda>row. [sum_list row, sum_list row]) x)
      else Inl RuntimeError)"

section \<open>Properties of the submitter\<close>

subsection \<open>The paging loop of \<^verbatim>\<open>printLogs\<close>\<close>

text \<open>One answered request either ends the loop or sends the next request with the new token.\<close>

lemma print_events_eq:
  "print_events l ou es =
     (if es = [] then l else ev_timestamp (last es), ou @ map log_line es)"
  by (induction es arbitrary: l ou) (simp_all add: log_line_def)

lemma printLogs_loop_stop:
  "\<not> advances kw (svc kw) \<Longrightarrow>
   printLogs_loop kw l ou (svc # rest) =
     Some (last_timestamp l (lp_events (svc kw)), ou @ page_events kw (svc kw))"
  by (auto simp add: print_events_eq Let_def advances_def page_events_def last_timestamp_def)

lemma printLogs_loop_step:
  "advances kw (svc kw) \<Longrightarrow>
   printLogs_loop kw l ou (svc # rest) =
     printLogs_loop (kw\<lparr>kw_nextToken := lp_nextForwardToken (svc kw)\<rparr>)
       (last_timestamp l (lp_events (svc kw))) (ou @ page_events kw (svc kw)) rest"
  by (auto simp add: print_events_eq Let_def advances_def page_events_def last_timestamp_def)

declare printLogs_loop.simps(2) [simp del]

lemma log_requests_append [simp]: "log_requests (xs @ ys) = log_requests xs @ log_requests ys"
  by (simp add: log_requests_def)

lemma status_updates_append [simp]: "status_updates (xs @ ys) = status_updates xs @ status_updates ys"
  by (simp add: status_updates_def)

lemma submissions_append [simp]: "submissions (xs @ ys) = submissions xs @ submissions ys"
  by (simp add: submissions_def)

lemma proj_Nil [simp]:
  "log_requests [] = []" "status_updates [] = []" "submissions [] = []"
  by (simp_all add: log_requests_def status_updates_def submissions_def)

lemma page_events_proj [simp]:
  "log_requests (page_events kw p) = [(kw, p)]"
  "status_updates (page_events kw p) = []"
  "submissions (page_events kw p) = []"
  by (simp_all add: page_events_def log_requests_def status_updates_def submissions_def
      log_request_def status_update_def submitted_def log_line_def)

lemma printLogs_loop_out:
  "printLogs_loop kw l ou svcs = Some (l', ou') \<Longrightarrow>
     \<exists>evs. ou' = ou @ evs \<and> status_updates evs = [] \<and> submissions evs = [] \<and>
           token_chain (log_requests evs) \<and> fst (hd (log_requests evs)) = kw \<and>
           (\<forall>r \<in> set (log_requests evs). kw_startTime (fst r) = kw_startTime kw) \<and>
           length (log_requests evs) \<le> length svcs \<and>
           map snd (log_requests evs) =
             map (\<lambda>(svc, r). svc (fst r)) (zip svcs (log_requests evs))"
proof (induction svcs arbitrary: kw l ou)
  case Nil
  then show ?case by simp
next
  case (Cons svc rest)
  show ?case
  proof (cases "advances kw (svc kw)")
    case False
    with Cons.prems have "ou' = ou @ page_events kw (svc kw)"
      by (simp add: printLogs_loop_stop)
    with False show ?thesis by simp
  next
    case True
    let ?kw = "kw\<lparr>kw_nextToken := lp_nextForwardToken (svc kw)\<rparr>"
    from True Cons.prems have rec: "printLogs_loop ?kw
        (last_timestamp l (lp_events (svc kw))) (ou @ page_events kw (svc kw)) rest = Some (l', ou')"
      by (simp add: printLogs_loop_step)
    from Cons.IH [OF rec] obtain evs where evs:
      "ou' = (ou @ page_events kw (svc kw)) @ evs" "status_updates evs = []" "submissions evs = []"
      "token_chain (log_requests evs)"
      "fst (hd (log_requests evs)) = ?kw"
      "\<forall>r \<in> set (log_requests evs). kw_startTime (fst r) = kw_startTime kw"
      "length (log_requests evs) \<le> length rest"
      "map snd (log_requests evs) = map (\<lambda>(svc, r). svc (fst r)) (zip rest (log_requests evs))"
      by auto
    from evs(4) obtain kw' p' xs where lr: "log_requests evs = (kw', p') # xs"
      by (cases "log_requests evs") auto
    with evs(5) have kw': "kw' = ?kw" by simp
    have "token_chain (log_requests (page_events kw (svc kw) @ evs))"
      using True evs(4) lr kw' by simp
    with evs lr show ?thesis
      by (intro exI [of _ "page_events kw (svc kw) @ evs"]) simp
  qed
qed

lemma last_timestamp_ge:
  "honours_startTime svc \<Longrightarrow> kw_startTime kw - 1 \<le> l \<Longrightarrow>
   kw_startTime kw - 1 \<le> last_timestamp l (lp_events (svc kw))"
proof (cases "lp_events (svc kw) = []")
  case True
  assume "kw_startTime kw - 1 \<le> l"
  with True show ?thesis by (simp add: last_timestamp_def)
next
  case False
  assume "honours_startTime svc"
  with False have "kw_startTime kw \<le> ev_timestamp (last (lp_events (svc kw)))"
    by (simp add: honours_startTime_def)
  with False show ?thesis by (simp add: last_timestamp_def)
qed

lemma printLogs_loop_last:
  "printLogs_loop kw l ou svcs = Some (l', ou') \<Longrightarrow> \<forall>svc \<in> set svcs. honours_startTime svc \<Longrightarrow>
   kw_startTime kw - 1 \<le> l \<Longrightarrow> kw_startTime kw - 1 \<le> l'"
proof (induction svcs arbitrary: kw l ou)
  case Nil
  then show ?case by simp
next
  case (Cons svc rest)
  from Cons.prems have l1: "kw_startTime kw - 1 \<le> last_timestamp l (lp_events (svc kw))"
    by (simp add: last_timestamp_ge)
  show ?case
  proof (cases "advances kw (svc kw)")
    case False
    with Cons.prems(1) l1 show ?thesis
      by (simp add: printLogs_loop_stop)
  next
    case True
    let ?kw = "kw\<lparr>kw_nextToken := lp_nextForwardToken (svc kw)\<rparr>"
    from True Cons.prems have rec: "printLogs_loop ?kw
        (last_timestamp l (lp_events (svc kw))) (ou @ page_events kw (svc kw)) rest = Some (l', ou')"
      by (simp add: printLogs_loop_step)
    from Cons.IH [OF rec] Cons.prems(2) l1 show ?thesis by simp
  qed
qed

lemma advances_token: "advances kw p \<Longrightarrow> lp_nextForwardToken p \<noteq> None"
  by (auto simp: advances_def truthy_def split: option.splits)

lemma printLogs_loop_returns_token:
  "\<exists>svc \<in> set svcs. echoes svc \<Longrightarrow> kw_nextToken kw \<noteq> None \<Longrightarrow>
   \<exists>r. printLogs_loop kw l ou svcs = Some r"
proof (induction svcs arbitrary: kw l ou)
  case Nil
  then show ?case by simp
next
  case (Cons svc rest)
  show ?case
  proof (cases "advances kw (svc kw)")
    case False
    then show ?thesis by (simp add: printLogs_loop_stop)
  next
    case True
    with Cons.prems(2) have "\<not> echoes svc" by (auto simp: echoes_def)
    with Cons.prems have "\<exists>svc \<in> set rest. echoes svc" by auto
    from Cons.IH [OF this] True advances_token [OF True] show ?thesis
      by (simp add: printLogs_loop_step)
  qed
qed

lemma printLogs_loop_returns:
  assumes "reaches_end svcs"
  shows "\<exists>r. printLogs_loop kw l ou svcs = Some r"
proof (cases svcs)
  case Nil
  with assms show ?thesis by (simp add: reaches_end_def)
next
  case (Cons svc rest)
  with assms have rest: "\<exists>svc \<in> set rest. echoes svc" by (simp add: reaches_end_def)
  show ?thesis
  proof (cases "advances kw (svc kw)")
    case False
    with Cons show ?thesis by (simp add: printLogs_loop_stop)
  next
    case True
    from printLogs_loop_returns_token [OF rest] advances_token [OF True] True Cons show ?thesis
      by (simp add: printLogs_loop_step)
  qed
qed

subsection \<open>One iteration of the polling loop\<close>

text \<open>Fetching logs changes the watermark and the events only, and prints no status update.\<close>

lemma fetch_logs_frame:
  assumes "fetch_logs st svcs = Some st'"
  shows "spinner st' = spinner st \<and> running st' = running st \<and> status_set st' = status_set st \<and>
         logStreamName st' = logStreamName st \<and>
         (\<exists>evs. out st' = out st @ evs \<and> status_updates evs = [] \<and> submissions evs = [] \<and>
            (\<forall>r \<in> set (log_requests evs). kw_startTime (fst r) = startTime st))"
proof (cases "truthy (logStreamName st)")
  case False
  with assms have "st' = st"
    by (auto simp: fetch_logs_def truthy_def split: option.splits if_splits)
  then show ?thesis by simp
next
  case True
  then obtain stream where s: "logStreamName st = Some stream" "stream \<noteq> []"
    by (auto simp: truthy_def split: option.splits)
  with assms obtain l ou' where
    r: "printLogs logGroupName stream (startTime st) (out st) svcs = Some (l, ou')"
    and st': "st' = st\<lparr>startTime := l + 1, out := ou'\<rparr>"
    by (auto simp: fetch_logs_def split: option.splits)
  from printLogs_loop_out [OF r [unfolded printLogs_def]] st' show ?thesis
    by auto
qed

lemma fetch_logs_startTime:
  assumes "fetch_logs st svcs = Some st'" and "\<forall>svc \<in> set svcs. honours_startTime svc"
  shows "startTime st \<le> startTime st'"
proof (cases "truthy (logStreamName st)")
  case False
  with assms have "st' = st"
    by (auto simp: fetch_logs_def truthy_def split: option.splits if_splits)
  then show ?thesis by simp
next
  case True
  then obtain stream where s: "logStreamName st = Some stream" "stream \<noteq> []"
    by (auto simp: truthy_def split: option.splits)
  with assms obtain l ou' where
    r: "printLogs logGroupName stream (startTime st) (out st) svcs = Some (l, ou')"
    and st': "st' = st\<lparr>startTime := l + 1, out := ou'\<rparr>"
    by (auto simp: fetch_logs_def split: option.splits)
  from printLogs_loop_last [OF r [unfolded printLogs_def] assms(2)] st' show ?thesis
    by simp
qed

lemma fetch_logs_returns:
  assumes "reaches_end svcs"
  shows "\<exists>st'. fetch_logs st svcs = Some st'"
proof (cases "logStreamName st")
  case None
  then show ?thesis by (simp add: fetch_logs_def)
next
  case (Some stream)
  from printLogs_loop_returns [OF assms] obtain r where
    "printLogs logGroupName stream (startTime st) (out st) svcs = Some r"
    unfolding printLogs_def by blast
  with Some show ?thesis
    by (cases r) (simp add: fetch_logs_def)
qed

lemma poll_step_terminal:
  "terminal (dj_status (pi_describe inp)) \<Longrightarrow>
   poll_step n i st inp =
     (case fetch_logs st (pi_logs inp) of
        None \<Rightarrow> (Fetching, st)
      | Some st1 \<Rightarrow>
          (Exited (sys_exit (dj_status (pi_describe inp) = ''FAILED'')),
           st1\<lparr>out := out st1 @ [PrintRule, PrintJobStatus n i (dj_status (pi_describe inp))]\<rparr>))"
  by (auto simp: poll_step_def terminal_def Let_def)

lemma poll_step_running:
  "dj_status (pi_describe inp) = ''RUNNING'' \<Longrightarrow>
   poll_step n i st inp =
     (case fetch_logs (enter_running n i st (dj_logStreamName (pi_describe inp))) (pi_logs inp) of
        None \<Rightarrow> (Fetching, enter_running n i st (dj_logStreamName (pi_describe inp)))
      | Some st3 \<Rightarrow> (Polling, st3))"
  by (auto simp: poll_step_def enter_running_def Let_def split: option.splits)

lemma poll_step_other:
  "\<not> terminal (dj_status (pi_describe inp)) \<Longrightarrow> dj_status (pi_describe inp) \<noteq> ''RUNNING'' \<Longrightarrow>
   poll_step n i st inp =
     (Polling,
      if dj_status (pi_describe inp) \<in> status_set st then st
      else st\<lparr>status_set := insert (dj_status (pi_describe inp)) (status_set st),
              out := out st @ [PrintStatusUpdate n i (dj_status (pi_describe inp))
                                 (spin ! (spinner st mod length spin))],
              spinner := spinner st + 1\<rparr>)"
  by (simp add: poll_step_def terminal_def Let_def)

lemma poll_step_cases:
  obtains (terminal) "terminal (dj_status (pi_describe inp))"
  | (running) "dj_status (pi_describe inp) = ''RUNNING''"
  | (other) "\<not> terminal (dj_status (pi_describe inp))" "dj_status (pi_describe inp) \<noteq> ''RUNNING''"
  by blast

lemma poll_step_outcome:
  "fst (poll_step n i st inp) = Fetching \<or>
   fst (poll_step n i st inp) =
     (if terminal (dj_status (pi_describe inp))
      then Exited (sys_exit (dj_status (pi_describe inp) = ''FAILED'')) else Polling)"
proof (cases rule: poll_step_cases [of inp])
  case terminal
  then show ?thesis by (simp add: poll_step_terminal split: option.split)
next
  case running
  then show ?thesis by (simp add: poll_step_running terminal_def split: option.split)
next
  case other
  then show ?thesis by (simp add: poll_step_other)
qed

lemma poll_step_not_Fetching:
  assumes "reaches_end (pi_logs inp)"
  shows "fst (poll_step n i st inp) \<noteq> Fetching"
proof (cases rule: poll_step_cases [of inp])
  case terminal
  from fetch_logs_returns [OF assms, of st] obtain st' where
    "fetch_logs st (pi_logs inp) = Some st'" by blast
  with terminal show ?thesis by (simp add: poll_step_terminal)
next
  case running
  from fetch_logs_returns [OF assms] obtain st' where
    "fetch_logs (enter_running n i st (dj_logStreamName (pi_describe inp))) (pi_logs inp) = Some st'"
    by blast
  with running show ?thesis by (simp add: poll_step_running)
next
  case other
  then show ?thesis by (simp add: poll_step_other)
qed

subsection \<open>The polling loop\<close>

lemma poll_loop_outcome:
  "fst (poll_loop n i st inps) = Fetching \<or>
   fst (poll_loop n i st inps) =
     (case find terminal (statuses inps) of
        None \<Rightarrow> Polling
      | Some s \<Rightarrow> Exited (sys_exit (s = ''FAILED'')))"
proof (induction inps arbitrary: st)
  case Nil
  then show ?case by (simp add: statuses_def)
next
  case (Cons inp inps)
  obtain oc st' where step: "poll_step n i st inp = (oc, st')" by (cases "poll_step n i st inp")
  from poll_step_outcome [of n i st inp] step
  consider "oc = Fetching"
    | "terminal (dj_status (pi_describe inp))" "oc = Exited (sys_exit (dj_status (pi_describe inp) = ''FAILED''))"
    | "\<not> terminal (dj_status (pi_describe inp))" "oc = Polling"
    by (auto split: if_splits)
  then show ?case
  proof cases
    case 1
    with step show ?thesis by simp
  next
    case 2
    with step show ?thesis by (simp add: statuses_def)
  next
    case 3
    with step Cons.IH [of st'] show ?thesis by (simp add: statuses_def)
  qed
qed

lemma poll_loop_not_Fetching:
  "\<forall>inp \<in> set inps. reaches_end (pi_logs inp) \<Longrightarrow>
   fst (poll_loop n i st inps) \<noteq> Fetching"
proof (induction inps arbitrary: st)
  case Nil
  then show ?case by simp
next
  case (Cons inp inps)
  obtain oc st' where step: "poll_step n i st inp = (oc, st')" by (cases "poll_step n i st inp")
  with poll_step_not_Fetching [of inp n i st] Cons.prems have "oc \<noteq> Fetching" by auto
  with step Cons.IH [of st'] Cons.prems show ?case
    by (cases oc) auto
qed

lemma proj_Cons:
  "status_updates (ev # evs) = status_update ev @ status_updates evs"
  "submissions (ev # evs) = submitted ev @ submissions evs"
  "log_requests (ev # evs) = log_request ev @ log_requests evs"
  by (simp_all add: log_requests_def status_updates_def submissions_def)

lemma output_header_proj [simp]:
  "status_updates (output_header stream) = []"
  "submissions (output_header stream) = []"
  "log_requests (output_header stream) = []"
  by (cases stream; simp add: output_header_def proj_Cons log_request_def status_update_def
      submitted_def)+

lemma proj_single [simp]:
  "status_updates [PrintStatusUpdate n i s g] = [s]"
  "submissions [PrintStatusUpdate n i s g] = []"
  "log_requests [PrintStatusUpdate n i s g] = []"
  "status_updates [PrintRule, PrintJobStatus n i s] = []"
  "submissions [PrintRule, PrintJobStatus n i s] = []"
  "log_requests [PrintRule, PrintJobStatus n i s] = []"
  "status_updates (PrintRunning n i # evs) = status_updates evs"
  "submissions (PrintRunning n i # evs) = submissions evs"
  "log_requests (PrintRunning n i # evs) = log_requests evs"
  by (simp_all add: proj_Cons log_request_def status_update_def submitted_def)

lemma enter_running_frame:
  "spinner (enter_running n i st stream) = spinner st"
  "status_set (enter_running n i st stream) = status_set st"
  "startTime (enter_running n i st stream) = startTime st"
  "\<exists>evs. out (enter_running n i st stream) = out st @ evs \<and> status_updates evs = [] \<and>
         submissions evs = [] \<and> log_requests evs = []"
  by (simp_all add: enter_running_def)

lemma poll_step_effect:
  assumes "poll_step n i st inp = (oc, st')"
  shows "\<exists>evs. out st' = out st @ evs \<and> submissions evs = [] \<and>
           status_updates evs = new_update st (dj_status (pi_describe inp)) \<and>
           status_set st' = status_set st \<union> set (new_update st (dj_status (pi_describe inp))) \<and>
           (\<forall>r \<in> set (log_requests evs). kw_startTime (fst r) = startTime st)"
proof (cases rule: poll_step_cases [of inp])
  case terminal
  then have nu: "new_update st (dj_status (pi_describe inp)) = []"
    by (simp add: new_update_def other_status_def)
  show ?thesis
  proof (cases "fetch_logs st (pi_logs inp)")
    case None
    with terminal assms have "st' = st" by (simp add: poll_step_terminal)
    with nu show ?thesis by simp
  next
    case (Some st1)
    with terminal assms have
      st': "st' = st1\<lparr>out := out st1 @ [PrintRule, PrintJobStatus n i (dj_status (pi_describe inp))]\<rparr>"
      by (simp add: poll_step_terminal)
    from fetch_logs_frame [OF Some] obtain evs where
      "status_set st1 = status_set st" "out st1 = out st @ evs" "status_updates evs = []"
      "submissions evs = []" "\<forall>r \<in> set (log_requests evs). kw_startTime (fst r) = startTime st"
      by blast
    with st' nu show ?thesis
      by (intro exI [of _ "evs @ [PrintRule, PrintJobStatus n i (dj_status (pi_describe inp))]"]) simp
  qed
next
  case running
  then have nu: "new_update st (dj_status (pi_describe inp)) = []"
    by (simp add: new_update_def other_status_def)
  let ?st2 = "enter_running n i st (dj_logStreamName (pi_describe inp))"
  from enter_running_frame(4) [of n i st "dj_logStreamName (pi_describe inp)"] obtain evs2 where
    evs2: "out ?st2 = out st @ evs2" "status_updates evs2 = []" "submissions evs2 = []"
      "log_requests evs2 = []"
    by blast
  show ?thesis
  proof (cases "fetch_logs ?st2 (pi_logs inp)")
    case None
    with running assms have "st' = ?st2" by (simp add: poll_step_running)
    with nu evs2 show ?thesis
      by (intro exI [of _ evs2]) (simp add: enter_running_frame)
  next
    case (Some st3)
    with running assms have st': "st' = st3" by (simp add: poll_step_running)
    from fetch_logs_frame [OF Some] obtain evs where
      "status_set st3 = status_set ?st2" "out st3 = out ?st2 @ evs" "status_updates evs = []"
      "submissions evs = []" "\<forall>r \<in> set (log_requests evs). kw_startTime (fst r) = startTime ?st2"
      by blast
    with st' nu evs2 show ?thesis
      by (intro exI [of _ "evs2 @ evs"]) (simp add: enter_running_frame)
  qed
next
  case other
  with assms show ?thesis
    by (auto simp: poll_step_other new_update_def other_status_def)
qed

lemma poll_step_startTime:
  assumes "poll_step n i st inp = (oc, st')" and "\<forall>svc \<in> set (pi_logs inp). honours_startTime svc"
  shows "startTime st \<le> startTime st'"
proof (cases rule: poll_step_cases [of inp])
  case terminal
  show ?thesis
  proof (cases "fetch_logs st (pi_logs inp)")
    case None
    with terminal assms have "st' = st" by (simp add: poll_step_terminal)
    then show ?thesis by simp
  next
    case (Some st1)
    with terminal assms(1) have "startTime st' = startTime st1"
      by (auto simp add: poll_step_terminal)
    with fetch_logs_startTime [OF Some assms(2)] show ?thesis by simp
  qed
next
  case running
  let ?st2 = "enter_running n i st (dj_logStreamName (pi_describe inp))"
  show ?thesis
  proof (cases "fetch_logs ?st2 (pi_logs inp)")
    case None
    with running assms have "st' = ?st2" by (simp add: poll_step_running)
    then show ?thesis by (simp add: enter_running_frame)
  next
    case (Some st3)
    with running assms have st': "st' = st3" by (simp add: poll_step_running)
    with fetch_logs_startTime [OF Some assms(2)] show ?thesis
      by (simp add: enter_running_frame)
  qed
next
  case other
  with assms show ?thesis
    by (auto simp: poll_step_other)
qed

lemma set_first_occurrences [simp]: "set (first_occurrences xs) = set xs"
  by (induction xs) auto

lemma distinct_first_occurrences [simp]: "distinct (first_occurrences xs)"
  by (induction xs) auto

lemma sorted_constant: "\<forall>t \<in> set xs. t = c \<Longrightarrow> sorted (xs :: int list)"
  by (induction xs) auto

lemma poll_loop_submissions:
  "poll_loop n i st inps = (oc, st') \<Longrightarrow> submissions (out st') = submissions (out st)"
proof (induction inps arbitrary: st)
  case Nil
  then show ?case by simp
next
  case (Cons inp inps)
  obtain oc1 st1 where step: "poll_step n i st inp = (oc1, st1)" by (cases "poll_step n i st inp")
  from poll_step_effect [OF step] have s1: "submissions (out st1) = submissions (out st)"
    by auto
  show ?case
  proof (cases "oc1 = Polling")
    case True
    with step Cons.prems have "poll_loop n i st1 inps = (oc, st')" by simp
    from Cons.IH [OF this] s1 show ?thesis by simp
  next
    case False
    with step Cons.prems have "st' = st1" by (cases oc1) auto
    with s1 show ?thesis by simp
  qed
qed

lemma poll_loop_watermarks:
  assumes "poll_loop n i st inps = (oc, st')"
    and "\<forall>inp \<in> set inps. \<forall>svc \<in> set (pi_logs inp). honours_startTime svc"
    and "sorted (watermarks (out st))" and "\<forall>t \<in> set (watermarks (out st)). t \<le> startTime st"
  shows "sorted (watermarks (out st')) \<and> (\<forall>t \<in> set (watermarks (out st')). t \<le> startTime st') \<and>
         startTime st \<le> startTime st'"
  using assms
proof (induction inps arbitrary: st)
  case Nil
  then show ?case by simp
next
  case (Cons inp inps)
  obtain oc1 st1 where step: "poll_step n i st inp = (oc1, st1)" by (cases "poll_step n i st inp")
  from Cons.prems(2) have h: "\<forall>svc \<in> set (pi_logs inp). honours_startTime svc" by simp
  from poll_step_startTime [OF step h] have mono: "startTime st \<le> startTime st1" .
  from poll_step_effect [OF step] obtain evs where
    evs: "out st1 = out st @ evs" "\<forall>r \<in> set (log_requests evs). kw_startTime (fst r) = startTime st"
    by blast
  from evs(2) have w: "\<forall>t \<in> set (watermarks evs). t = startTime st"
    by (auto simp: watermarks_def)
  then have "sorted (watermarks evs)"
    by (rule sorted_constant)
  with evs(1) w Cons.prems(3,4) have s1: "sorted (watermarks (out st1))"
    by (auto simp: watermarks_def sorted_append)
  from evs(1) w Cons.prems(4) mono have b1: "\<forall>t \<in> set (watermarks (out st1)). t \<le> startTime st1"
    by (auto simp: watermarks_def)
  show ?case
  proof (cases "oc1 = Polling")
    case True
    with step Cons.prems have "poll_loop n i st1 inps = (oc, st')" by simp
    from Cons.IH [OF this _ s1 b1] Cons.prems(2) mono show ?thesis by simp
  next
    case False
    with step Cons.prems have "st' = st1" by (cases oc1) auto
    with s1 b1 mono show ?thesis by simp
  qed
qed

lemma poll_loop_updates:
  assumes "poll_loop n i st inps = (oc, st')"
  shows "\<exists>k \<le> length inps.
           status_updates (out st') =
             status_updates (out st) @
               filter (\<lambda>s. s \<notin> status_set st)
                 (first_occurrences (filter other_status (take k (statuses inps)))) \<and>
           status_set st' = status_set st \<union> set (filter other_status (take k (statuses inps))) \<and>
           (oc \<noteq> Fetching \<longrightarrow>
              take k (statuses inps) = takeWhile (\<lambda>s. \<not> terminal s) (statuses inps))"
  using assms
proof (induction inps arbitrary: st)
  case Nil
  then show ?case by (simp add: statuses_def)
next
  case (Cons inp inps)
  let ?s = "dj_status (pi_describe inp)"
  obtain oc1 st1 where step: "poll_step n i st inp = (oc1, st1)" by (cases "poll_step n i st inp")
  from poll_step_effect [OF step] have
    u1: "status_updates (out st1) = status_updates (out st) @ new_update st ?s"
    and s1: "status_set st1 = status_set st \<union> set (new_update st ?s)"
    by auto
  from poll_step_outcome [of n i st inp] step
  consider "oc1 = Fetching"
    | "terminal ?s" "oc1 = Exited (sys_exit (?s = ''FAILED''))"
    | "\<not> terminal ?s" "oc1 = Polling"
    by (auto split: if_splits)
  then show ?case
  proof cases
    case 1
    with step Cons.prems have "st' = st1" "oc = Fetching" by auto
    moreover from 1 step have "new_update st ?s = []"
      by (cases rule: poll_step_cases [of inp])
         (auto simp: new_update_def other_status_def poll_step_other)
    ultimately show ?thesis using u1 s1
      by (intro exI [of _ 0]) simp
  next
    case 2
    with step Cons.prems have "st' = st1" by auto
    moreover from 2 have "new_update st ?s = []"
      by (simp add: new_update_def other_status_def)
    ultimately show ?thesis using u1 s1 2
      by (intro exI [of _ 0]) (simp add: statuses_def)
  next
    case 3
    with step Cons.prems have "poll_loop n i st1 inps = (oc, st')" by simp
    from Cons.IH [OF this] obtain k where k: "k \<le> length inps"
      "status_updates (out st') =
         status_updates (out st1) @
           filter (\<lambda>s. s \<notin> status_set st1)
             (first_occurrences (filter other_status (take k (statuses inps))))"
      "status_set st' = status_set st1 \<union> set (filter other_status (take k (statuses inps)))"
      "oc \<noteq> Fetching \<longrightarrow> take k (statuses inps) = takeWhile (\<lambda>s. \<not> terminal s) (statuses inps)"
      by blast
    have st: "statuses (inp # inps) = ?s # statuses inps" by (simp add: statuses_def)
    have "status_updates (out st') =
             status_updates (out st) @
               filter (\<lambda>s. s \<notin> status_set st)
                 (first_occurrences (filter other_status (take (Suc k) (statuses (inp # inps)))))"
      unfolding k(2) u1 s1 st
      by (auto simp: new_update_def intro!: filter_cong)
    moreover have "status_set st' =
        status_set st \<union> set (filter other_status (take (Suc k) (statuses (inp # inps))))"
      unfolding k(3) s1 st by (auto simp: new_update_def)
    moreover have "oc \<noteq> Fetching \<longrightarrow>
        take (Suc k) (statuses (inp # inps)) = takeWhile (\<lambda>s. \<not> terminal s) (statuses (inp # inps))"
      using k(4) 3 unfolding st by simp
    ultimately show ?thesis using k(1)
      by (intro exI [of _ "Suc k"]) simp
  qed
qed

subsection \<open>\<^verbatim>\<open>main\<close>\<close>

lemma main_Inr:
  assumes "main a e = Inr (oc, st)"
  shows "\<exists>info. job_type_lookup (arg_job_type a) = Inr info \<and>
           (if arg_wait a
            then poll_loop (sanitize_jobName (arg_name a)) (env_jobId e)
                   (submitted_state a e info) (env_polls e) = (oc, st)
            else oc = Exited 0 \<and> st = submitted_state a e info)"
  using assms
  by (cases "job_type_lookup (arg_job_type a)")
     (auto simp: main_def Let_def submit_kwargs_def submitted_state_def split: if_splits)

lemma submitted_state_proj [simp]:
  "submissions (out (submitted_state a e info)) = [submit_kwargs a info]"
  "status_updates (out (submitted_state a e info)) = []"
  "log_requests (out (submitted_state a e info)) = []"
  "status_set (submitted_state a e info) = {}"
  "startTime (submitted_state a e info) = 0"
  by (simp_all add: submitted_state_def initial_state_def proj_Cons log_request_def
      status_update_def submitted_def)

lemma main_submissions:
  assumes "main a e = Inr (oc, st)"
  shows "\<exists>info. job_type_lookup (arg_job_type a) = Inr info \<and>
           submissions (out st) = [submit_kwargs a info]"
proof -
  from main_Inr [OF assms] obtain info where info: "job_type_lookup (arg_job_type a) = Inr info"
    and r: "if arg_wait a
            then poll_loop (sanitize_jobName (arg_name a)) (env_jobId e)
                   (submitted_state a e info) (env_polls e) = (oc, st)
            else oc = Exited 0 \<and> st = submitted_state a e info"
    by blast
  have "submissions (out st) = [submit_kwargs a info]"
  proof (cases "arg_wait a")
    case True
    with r poll_loop_submissions show ?thesis by fastforce
  next
    case False
    with r show ?thesis by simp
  qed
  with info show ?thesis by blast
qed

lemma jobName_class_allowed:
  "jobName_class c \<Longrightarrow> c \<in> of_char ` set allowed_jobName_chars"
  unfolding jobName_class_def allowed_jobName_chars_def
  apply simp
  apply (elim disjE conjE)
  apply presburger+
  done

lemma sanitize_jobName_ok:
  "set (sanitize_jobName s) \<subseteq> of_char ` set allowed_jobName_chars \<and> length (sanitize_jobName s) \<le> 128"
  by (auto simp: sanitize_jobName_def re_sub_jobName_def dest!: in_set_takeD intro: jobName_class_allowed)

subsection \<open>The sample runs\<close>

lemma example_run: "main example_args example_env = Inr (Exited 1, example_final)"
  by (simp add: main_def example_args_def example_env_def example_polls_def example_final_def
      example_submit_def example_kwargs_def job_type_lookup_def job_type_info_def
      submit_kwargs_def sanitize_jobName_def re_sub_jobName_def jobName_class_def pystr_of_def
      initial_state_def poll_step_def fetch_logs_def printLogs_def printLogs_loop.simps(2)
      fresh_page_def end_page_def truthy_def output_header_def sys_exit_def spin_def
      logGroupName_def Let_def)

lemma quick_run: "main example_args quick_env = Inr (Exited 0, quick_final)"
  by (simp add: main_def example_args_def quick_env_def quick_final_def
      example_submit_def job_type_lookup_def job_type_info_def
      submit_kwargs_def sanitize_jobName_def re_sub_jobName_def jobName_class_def pystr_of_def
      initial_state_def poll_step_def fetch_logs_def sys_exit_def Let_def)

lemma example_statuses:
  "statuses (env_polls example_env) = [''SUBMITTED'', ''RUNNABLE'', ''SUBMITTED'', ''RUNNING'', ''FAILED'']"
  "statuses (env_polls quick_env) = [''SUCCEEDED'']"
  by (simp_all add: statuses_def example_env_def example_polls_def quick_env_def)

lemma example_pages:
  "honours_startTime fresh_page" "honours_startTime end_page" "echoes end_page"
  by (auto simp: honours_startTime_def echoes_def advances_def fresh_page_def end_page_def
      truthy_def)

lemma example_reaches_end:
  "reaches_end [fresh_page, end_page]" "reaches_end [end_page, end_page]"
  by (simp_all add: reaches_end_def example_pages)

lemma example_contract:
  "\<forall>inp \<in> set (env_polls example_env). \<forall>svc \<in> set (pi_logs inp). honours_startTime svc"
  "\<forall>inp \<in> set (env_polls example_env). reaches_end (pi_logs inp)"
  "\<forall>inp \<in> set (env_polls quick_env). reaches_end (pi_logs inp)"
  by (simp_all add: example_env_def example_polls_def quick_env_def example_pages
      example_reaches_end)

lemma example_observed:
  "status_updates (out example_final) = [''SUBMITTED'', ''RUNNABLE'']"
  "watermarks (out example_final) = [0, 0, 6, 6]"
  by (simp_all add: example_final_def example_kwargs_def watermarks_def proj_Cons
      status_update_def log_request_def)

lemma example_printLogs:
  "printLogs logGroupName ''s'' 0 [] [fresh_page, end_page] =
     Some (5, [GetLogEvents (example_kwargs 0 None) (fresh_page (example_kwargs 0 None)),
               PrintLogLine 5 ''line'',
               GetLogEvents (example_kwargs 0 (Some ''f/1''))
                 (end_page (example_kwargs 0 (Some ''f/1'')))])"
  by (simp add: printLogs_def printLogs_loop.simps(2) example_kwargs_def fresh_page_def
      end_page_def truthy_def logGroupName_def Let_def)

lemma backwards_run: "main example_args backwards_env = Inr (Polling, backwards_final)"
  by (simp add: main_def example_args_def backwards_env_def backwards_final_def
      example_submit_def example_kwargs_def job_type_lookup_def job_type_info_def
      submit_kwargs_def sanitize_jobName_def re_sub_jobName_def jobName_class_def pystr_of_def
      initial_state_def poll_step_def fetch_logs_def printLogs_def printLogs_loop.simps(2)
      late_page_def old_page_def no_page_def truthy_def output_header_def
      logGroupName_def Let_def)

lemma backwards_printLogs:
  "printLogs logGroupName ''s'' 10 [] [old_page] =
     Some (3, [GetLogEvents (example_kwargs 10 None) (old_page (example_kwargs 10 None)),
               PrintLogLine 3 ''old''])"
  by (simp add: printLogs_def printLogs_loop.simps(2) example_kwargs_def old_page_def
      truthy_def logGroupName_def Let_def)

lemma backwards_observed: "watermarks (out backwards_final) = [0, 101, 4]"
  by (simp add: backwards_final_def example_kwargs_def watermarks_def proj_Cons log_request_def)

subsection \<open>The statements\<close>

text \<open>
  \<^bold>\<open>C2.\<close> Whatever string is given as \<^verbatim>\<open>--name\<close>, a run that gets to submit sends exactly
  one \<^verbatim>\<open>submit_job\<close> request; its job name is the sanitized name, holds only characters
  of \<^verbatim>\<open>[A-Za-z0-9_-]\<close> and is at most 128 characters long.
\<close>

theorem submitted_jobName_sanitized:
  assumes "main a e = Inr (oc, st)"
  shows "\<exists>kw. submissions (out st) = [kw] \<and>
           sj_jobName kw = sanitize_jobName (arg_name a) \<and>
           set (sj_jobName kw) \<subseteq> of_char ` set allowed_jobName_chars \<and>
           length (sj_jobName kw) \<le> 128"
proof -
  from main_submissions [OF assms] obtain info where
    "submissions (out st) = [submit_kwargs a info]" by blast
  moreover have "sj_jobName (submit_kwargs a info) = sanitize_jobName (arg_name a)"
    by (simp add: submit_kwargs_def)
  ultimately show ?thesis using sanitize_jobName_ok [of "arg_name a"] by simp
qed

theorem submitted_jobName_sanitized_witness:
  "main example_args example_env = Inr (Exited 1, example_final) \<and>
   sanitize_jobName (arg_name example_args) = pystr_of ''myjob1_a-b'' \<and>
   (\<exists>kw. submissions (out example_final) = [kw] \<and>
      sj_jobName kw = sanitize_jobName (arg_name example_args) \<and>
      set (sj_jobName kw) \<subseteq> of_char ` set allowed_jobName_chars \<and>
      length (sj_jobName kw) \<le> 128)"
proof -
  have "sanitize_jobName (arg_name example_args) = pystr_of ''myjob1_a-b''"
    by (simp add: example_args_def sanitize_jobName_def re_sub_jobName_def jobName_class_def
        pystr_of_def)
  with submitted_jobName_sanitized [OF example_run] example_run show ?thesis
    by blast
qed

text \<open>
  \<^bold>\<open>C6.\<close> The registry has exactly 8 job types with distinct names. The lookup succeeds
  for each of them and for no other key, and gives the definition and queue of the
  table; \<^verbatim>\<open>main\<close> gets past the lookup exactly for the registered job types and submits
  with the definition and queue found. The registry is a constant: no state of a run
  holds it, so no step of a run can change it.
\<close>

theorem job_type_lookup_total:
  "length job_type_info = 8 \<and> distinct job_type_choices \<and>
   (\<forall>k \<in> set job_type_choices. \<exists>info. job_type_lookup k = Inr info) \<and>
   (\<forall>k. k \<notin> set job_type_choices \<longrightarrow> job_type_lookup k = Inl KeyError) \<and>
   job_type_lookup ''CI-CPU'' =
     Inr \<lparr>job_definition = ''autogluon-ci-cpu:3'', job_queue = ''CI-CPU''\<rparr> \<and>
   job_type_lookup ''CI-GPU'' =
     Inr \<lparr>job_definition = ''autogluon-ci-gpu:3'', job_queue = ''CI-GPU''\<rparr> \<and>
   job_type_lookup ''CI-WASM'' =
     Inr \<lparr>job_definition = ''autogluon-ci-wasm:1'', job_queue = ''CI-CPU''\<rparr> \<and>
   job_type_lookup ''CI-MULTI-GPU'' =
     Inr \<lparr>job_definition = ''autogluon-ci-multi-gpu:6'', job_queue = ''CI-MULTI-GPU''\<rparr> \<and>
   job_type_lookup ''CI-CPU-PUSH'' =
     Inr \<lparr>job_definition = ''autogluon-ci-cpu-push:3'', job_queue = ''CI-CPU''\<rparr> \<and>
   job_type_lookup ''CI-GPU-PUSH'' =
     Inr \<lparr>job_definition = ''autogluon-ci-gpu-push:4'', job_queue = ''CI-GPU''\<rparr> \<and>
   job_type_lookup ''CI-WASM-PUSH'' =
     Inr \<lparr>job_definition = ''autogluon-ci-wasm-push:2'', job_queue = ''CI-CPU''\<rparr> \<and>
   job_type_lookup ''CI-MULTI-GPU-PUSH'' =
     Inr \<lparr>job_definition = ''autogluon-ci-multi-gpu-push:2'', job_queue = ''CI-MULTI-GPU''\<rparr> \<and>
   (\<forall>a e. (\<exists>r. main a e = Inr r) \<longleftrightarrow> arg_job_type a \<in> set job_type_choices) \<and>
   (\<forall>a e oc st. main a e = Inr (oc, st) \<longrightarrow>
      (\<exists>info kw. job_type_lookup (arg_job_type a) = Inr info \<and> submissions (out st) = [kw] \<and>
         sj_jobQueue kw = job_queue info \<and> sj_jobDefinition kw = job_definition info))"
proof -
  have total: "\<forall>k \<in> set job_type_choices. \<exists>info. job_type_lookup k = Inr info"
    by (simp add: job_type_choices_def job_type_info_def job_type_lookup_def)
  have missing: "job_type_lookup k = Inl KeyError" if "k \<notin> set job_type_choices" for k
  proof -
    from that have "map_of job_type_info k = None"
      by (simp add: job_type_choices_def map_of_eq_None_iff)
    then show ?thesis by (simp add: job_type_lookup_def)
  qed
  have runs: "(\<exists>r. main a e = Inr r) \<longleftrightarrow> arg_job_type a \<in> set job_type_choices" for a e
  proof (cases "arg_job_type a \<in> set job_type_choices")
    case True
    with total obtain info where "job_type_lookup (arg_job_type a) = Inr info" by blast
    with True show ?thesis by (simp add: main_def Let_def)
  next
    case False
    with missing [OF False] show ?thesis by (simp add: main_def)
  qed
  have submits: "\<exists>info kw. job_type_lookup (arg_job_type a) = Inr info \<and>
      submissions (out st) = [kw] \<and> sj_jobQueue kw = job_queue info \<and>
      sj_jobDefinition kw = job_definition info" if "main a e = Inr (oc, st)" for a e oc st
  proof -
    from main_submissions [OF that] obtain info where
      "job_type_lookup (arg_job_type a) = Inr info" "submissions (out st) = [submit_kwargs a info]"
      by blast
    then show ?thesis by (simp add: submit_kwargs_def)
  qed
  have table: "length job_type_info = 8" "distinct job_type_choices"
    by (simp_all add: job_type_choices_def job_type_info_def)
  have entries:
    "job_type_lookup ''CI-CPU'' =
       Inr \<lparr>job_definition = ''autogluon-ci-cpu:3'', job_queue = ''CI-CPU''\<rparr>"
    "job_type_lookup ''CI-GPU'' =
       Inr \<lparr>job_definition = ''autogluon-ci-gpu:3'', job_queue = ''CI-GPU''\<rparr>"
    "job_type_lookup ''CI-WASM'' =
       Inr \<lparr>job_definition = ''autogluon-ci-wasm:1'', job_queue = ''CI-CPU''\<rparr>"
    "job_type_lookup ''CI-MULTI-GPU'' =
       Inr \<lparr>job_definition = ''autogluon-ci-multi-gpu:6'', job_queue = ''CI-MULTI-GPU''\<rparr>"
    "job_type_lookup ''CI-CPU-PUSH'' =
       Inr \<lparr>job_definition = ''autogluon-ci-cpu-push:3'', job_queue = ''CI-CPU''\<rparr>"
    "job_type_lookup ''CI-GPU-PUSH'' =
       Inr \<lparr>job_definition = ''autogluon-ci-gpu-push:4'', job_queue = ''CI-GPU''\<rparr>"
    "job_type_lookup ''CI-WASM-PUSH'' =
       Inr \<lparr>job_definition = ''autogluon-ci-wasm-push:2'', job_queue = ''CI-CPU''\<rparr>"
    "job_type_lookup ''CI-MULTI-GPU-PUSH'' =
       Inr \<lparr>job_definition = ''autogluon-ci-multi-gpu-push:2'', job_queue = ''CI-MULTI-GPU''\<rparr>"
    by (simp_all add: job_type_lookup_def job_type_info_def)
  from table total missing entries runs submits show ?thesis
    by (intro conjI allI impI) blast+
qed

theorem job_type_lookup_total_witness:
  "''CI-WASM-PUSH'' \<in> set job_type_choices \<and>
   ''CI-TPU'' \<notin> set job_type_choices \<and>
   (\<exists>info. job_type_lookup ''CI-WASM-PUSH'' = Inr info) \<and>
   job_type_lookup ''CI-TPU'' = Inl KeyError \<and>
   main example_args example_env = Inr (Exited 1, example_final) \<and>
   (\<exists>info kw. job_type_lookup (arg_job_type example_args) = Inr info \<and>
      submissions (out example_final) = [kw] \<and>
      sj_jobQueue kw = job_queue info \<and> sj_jobDefinition kw = job_definition info)"
proof -
  have "''CI-WASM-PUSH'' \<in> set job_type_choices" "''CI-TPU'' \<notin> set job_type_choices"
    by (simp_all add: job_type_choices_def job_type_info_def)
  with job_type_lookup_total example_run show ?thesis
    by blast
qed

text \<open>
  \<^bold>\<open>C4.\<close> Without \<^verbatim>\<open>--wait\<close> the exit code is 0. With \<^verbatim>\<open>--wait\<close>, a run that exits does
  so at the first terminal status the batch service reports, and its exit code is nonzero
  exactly when that status is FAILED (0 when it is SUCCEEDED); and when a terminal status
  is reported and every log fetch is answered to its end, the run does exit, with code 1
  for FAILED and 0 otherwise.
\<close>

theorem exit_code_iff_failed:
  assumes "main a e = Inr (oc, st)"
  shows "(\<not> arg_wait a \<longrightarrow> oc = Exited 0) \<and>
         (arg_wait a \<longrightarrow>
            (\<forall>c. oc = Exited c \<longrightarrow>
               (\<exists>s. find terminal (statuses (env_polls e)) = Some s \<and>
                    (c \<noteq> 0 \<longleftrightarrow> s = ''FAILED'') \<and> (s = ''SUCCEEDED'' \<longrightarrow> c = 0))) \<and>
            (\<forall>s. find terminal (statuses (env_polls e)) = Some s \<and>
                 (\<forall>inp \<in> set (env_polls e). reaches_end (pi_logs inp)) \<longrightarrow>
                 oc = Exited (if s = ''FAILED'' then 1 else 0)))"
proof -
  from main_Inr [OF assms] obtain info where
    r: "if arg_wait a
        then poll_loop (sanitize_jobName (arg_name a)) (env_jobId e)
               (submitted_state a e info) (env_polls e) = (oc, st)
        else oc = Exited 0 \<and> st = submitted_state a e info"
    by blast
  show ?thesis
  proof (cases "arg_wait a")
    case False
    with r show ?thesis by simp
  next
    case True
    let ?n = "sanitize_jobName (arg_name a)" and ?st = "submitted_state a e info"
    from True r have loop: "poll_loop ?n (env_jobId e) ?st (env_polls e) = (oc, st)" by simp
    from poll_loop_outcome [of ?n "env_jobId e" ?st "env_polls e"] loop
    have oc: "oc = Fetching \<or>
        oc = (case find terminal (statuses (env_polls e)) of
                None \<Rightarrow> Polling | Some s \<Rightarrow> Exited (sys_exit (s = ''FAILED'')))"
      by simp
    have a: "\<exists>s. find terminal (statuses (env_polls e)) = Some s \<and>
        (c \<noteq> 0 \<longleftrightarrow> s = ''FAILED'') \<and> (s = ''SUCCEEDED'' \<longrightarrow> c = 0)" if "oc = Exited c" for c
      using oc that by (auto simp: sys_exit_def split: option.splits)
    have b: "oc = Exited (if s = ''FAILED'' then 1 else 0)"
      if "find terminal (statuses (env_polls e)) = Some s"
        and "\<forall>inp \<in> set (env_polls e). reaches_end (pi_logs inp)" for s
    proof -
      from poll_loop_not_Fetching [OF that(2), of ?n "env_jobId e" ?st] loop
      have "oc \<noteq> Fetching" by simp
      with oc that(1) show ?thesis by (simp add: sys_exit_def)
    qed
    from True a b show ?thesis by blast
  qed
qed

theorem exit_code_iff_failed_witness:
  "main example_args example_env = Inr (Exited 1, example_final) \<and>
   main example_args quick_env = Inr (Exited 0, quick_final) \<and>
   arg_wait example_args \<and>
   find terminal (statuses (env_polls example_env)) = Some ''FAILED'' \<and>
   find terminal (statuses (env_polls quick_env)) = Some ''SUCCEEDED'' \<and>
   (\<exists>s. find terminal (statuses (env_polls example_env)) = Some s \<and> s = ''FAILED'') \<and>
   (\<exists>s. find terminal (statuses (env_polls quick_env)) = Some s \<and> s \<noteq> ''FAILED'')"
proof -
  have w: "arg_wait example_args" by (simp add: example_args_def)
  have f: "find terminal (statuses (env_polls example_env)) = Some ''FAILED''"
    "find terminal (statuses (env_polls quick_env)) = Some ''SUCCEEDED''"
    by (simp_all add: example_statuses terminal_def)
  from exit_code_iff_failed [OF example_run] exit_code_iff_failed [OF quick_run] w f
    example_run quick_run
  show ?thesis by simp
qed






text \<open>
  \<^bold>\<open>C9.\<close> No status occurs twice among the status updates a run prints. The updates are
  those of the statuses other than RUNNING, SUCCEEDED and FAILED among the first \<open>k\<close>
  answers of the batch service, each at its first occurrence; for a run with \<^verbatim>\<open>--wait\<close>
  that does not end inside a log fetch, these \<open>k\<close> answers are all the answers before the
  first terminal status.
\<close>

theorem status_update_once:
  assumes "main a e = Inr (oc, st)"
  shows "distinct (status_updates (out st)) \<and>
         (\<exists>k \<le> length (env_polls e).
            status_updates (out st) =
              first_occurrences (filter other_status (take k (statuses (env_polls e)))) \<and>
            (arg_wait a \<and> oc \<noteq> Fetching \<longrightarrow>
               take k (statuses (env_polls e)) =
                 takeWhile (\<lambda>s. \<not> terminal s) (statuses (env_polls e))))"
proof -
  from main_Inr [OF assms] obtain info where
    r: "if arg_wait a
        then poll_loop (sanitize_jobName (arg_name a)) (env_jobId e)
               (submitted_state a e info) (env_polls e) = (oc, st)
        else oc = Exited 0 \<and> st = submitted_state a e info"
    by blast
  have "\<exists>k \<le> length (env_polls e).
            status_updates (out st) =
              first_occurrences (filter other_status (take k (statuses (env_polls e)))) \<and>
            (arg_wait a \<and> oc \<noteq> Fetching \<longrightarrow>
               take k (statuses (env_polls e)) =
                 takeWhile (\<lambda>s. \<not> terminal s) (statuses (env_polls e)))"
  proof (cases "arg_wait a")
    case False
    with r show ?thesis by (intro exI [of _ 0]) simp
  next
    case True
    with r have loop: "poll_loop (sanitize_jobName (arg_name a)) (env_jobId e)
               (submitted_state a e info) (env_polls e) = (oc, st)" by simp
    from poll_loop_updates [OF loop] obtain k where
      "k \<le> length (env_polls e)"
      "status_updates (out st) =
         first_occurrences (filter other_status (take k (statuses (env_polls e))))"
      "oc \<noteq> Fetching \<longrightarrow>
         take k (statuses (env_polls e)) = takeWhile (\<lambda>s. \<not> terminal s) (statuses (env_polls e))"
      by auto
    then show ?thesis by (intro exI [of _ k]) simp
  qed
  moreover from this have "distinct (status_updates (out st))" by auto
  ultimately show ?thesis by blast
qed

theorem status_update_once_witness:
  "main example_args example_env = Inr (Exited 1, example_final) \<and>
   statuses (env_polls example_env) =
     [''SUBMITTED'', ''RUNNABLE'', ''SUBMITTED'', ''RUNNING'', ''FAILED''] \<and>
   status_updates (out example_final) = [''SUBMITTED'', ''RUNNABLE''] \<and>
   distinct (status_updates (out example_final)) \<and>
   first_occurrences (filter other_status (takeWhile (\<lambda>s. \<not> terminal s)
      (statuses (env_polls example_env)))) = [''SUBMITTED'', ''RUNNABLE'']"
proof -
  from status_update_once [OF example_run]
  have "distinct (status_updates (out example_final))" by blast
  moreover have "first_occurrences (filter other_status (takeWhile (\<lambda>s. \<not> terminal s)
      (statuses (env_polls example_env)))) = [''SUBMITTED'', ''RUNNABLE'']"
    by (simp add: example_statuses terminal_def other_status_def)
  ultimately show ?thesis using example_run example_statuses example_observed by simp
qed

section \<open>Properties of the encoder\<close>

subsection \<open>The embedding width\<close>

text \<open>
  The exponent 0.56 is 14/25, so a bound on \<open>x powr 0.56\<close> is a comparison of a
  14th with a 25th power.
\<close>

lemma powr_14_25_power: "0 < x \<Longrightarrow> (x powr (14/25)) ^ 25 = (x::real) ^ 14"
proof -
  assume x: "0 < x"
  then have "(x powr (14/25)) ^ 25 = x powr (of_nat 25 * (14/25))"
    by (intro powr_power) simp
  also have "\<dots> = x powr 14" by simp
  also from x have "\<dots> = x ^ 14" by (simp add: powr_numeral)
  finally show ?thesis .
qed

lemma le_powr_14_25: "0 < x \<Longrightarrow> 0 \<le> y \<Longrightarrow> y \<le> x powr (14/25) \<longleftrightarrow> y ^ 25 \<le> (x::real) ^ 14"
proof -
  assume x: "0 < x" and y: "0 \<le> y"
  have "y \<le> x powr (14/25) \<longleftrightarrow> y ^ 25 \<le> (x powr (14/25)) ^ 25"
    using y by (simp add: power_mono_iff)
  with x show ?thesis by (simp add: powr_14_25_power)
qed

lemma powr_14_25_less: "0 < x \<Longrightarrow> 0 \<le> y \<Longrightarrow> x powr (14/25) < y \<longleftrightarrow> (x::real) ^ 14 < y ^ 25"
  using le_powr_14_25 [of x y] by auto

lemma clamped_bounds: "2 \<le> clamped c" "clamped c \<le> 100"
  by (simp_all add: clamped_def)

lemma width_floor: "embedding_dim_per_col c = \<lfloor>clamped c\<rfloor>"
  using clamped_bounds(1) [of c]
  by (simp add: embedding_dim_per_col_def py_int_def size_factor_def max_embedding_dim_def
      embed_exponent_def clamped_def)

lemma spec_round: "spec_embedding_width c = round (clamped c)"
  by (simp add: spec_embedding_width_def clamped_def)

lemma clamped_mono: "c \<le> c' \<Longrightarrow> clamped c \<le> clamped c'"
proof -
  assume "c \<le> c'"
  then have "real c powr 0.56 \<le> real c' powr 0.56"
    by (intro powr_mono2) simp_all
  then show ?thesis by (simp add: clamped_def max_def min_def)
qed

lemma bounds_3: "(25/16 :: real) \<le> 3 powr (14/25)" "(3::real) powr (14/25) < 15/8"
  by (subst le_powr_14_25 powr_14_25_less; simp add: power_divide)+

lemma clamped_3: "clamped 3 = 1.6 * 3 powr 0.56" "5/2 \<le> clamped 3" "clamped 3 < 3"
  using bounds_3 by (simp_all add: clamped_def max_def min_def)

lemma width_3: "embedding_dim_per_col 3 = 2"
  using clamped_3(2,3) unfolding width_floor by linarith

lemma spec_3: "spec_embedding_width 3 = 3"
  using clamped_3(2,3) unfolding spec_round round_def by linarith

lemma width_1: "embedding_dim_per_col 1 = 2"
  by (simp add: width_floor clamped_def)

lemma bounds_4000: "(125/2 :: real) \<le> 4000 powr (14/25)"
  by (subst le_powr_14_25) (simp_all add: power_divide)

subsection \<open>The sample encoder\<close>

lemma upt_small:
  "[0..<1] = [0]" "[0..<2] = [0, 1]" "[0..<3] = [0, 1, 2]" "[0..<4] = [0, 1, 2, 3]"
  by (simp_all add: upt_rec)

lemma width_Suc_0: "embedding_dim_per_col (Suc 0) = 2"
  using width_1 by simp

lemma example_columns:
  "column_embeddings (example_encoder nc) =
     [\<lparr>num_embeddings = 1, embedding_dim = 2, emb_weight = [[1, 1]]\<rparr>,
      \<lparr>num_embeddings = 3, embedding_dim = 2, emb_weight = [[1, 1], [2, 2], [3, 3]]\<rparr>]"
  by (simp add: example_encoder_def CategoricalMLP_def Let_def width_Suc_0 width_3
      Embedding_def example_params_def upt_small)

lemma example_head:
  "head (example_encoder 3) =
     Linear \<lparr>lin_in_features = 2, lin_out_features = 3,
             lin_weight = [[1, 1], [1, 1], [1, 1]], lin_bias = [0, 1, 2]\<rparr>"
  "head (example_encoder 0) = Identity"
  "head (example_encoder (- 3)) = Identity"
  by (simp_all add: example_encoder_def CategoricalMLP_def Let_def Linear_layer_def
      example_params_def upt_small)

lemma example_p_mlp:
  "p_mlp example_params k (mlp_arguments opts n h 2) = example_net n"
  by (rule ext) (simp add: example_params_def mlp_arguments_def example_net_def numeral_2_eq_2)

lemma example_mlps:
  "map mlp_forward (column_mlps (example_encoder nc)) = [example_net 2, example_net 2]"
  "mlp_forward (aggregator_mlp (example_encoder nc)) = example_net 4"
  by (simp_all add: example_encoder_def CategoricalMLP_def Let_def width_Suc_0 width_3 MLP_def
      example_p_mlp)

lemma example_column_features:
  "column_features (zip [[0, 0], [2, 1]]
      (zip (column_embeddings (example_encoder nc)) (column_mlps (example_encoder nc)))) =
     Inr [[[2, 2], [2, 2]], [[6, 6], [4, 4]]]"
proof -
  obtain n0 n1 where nets: "column_mlps (example_encoder nc) = [n0, n1]"
    and f: "mlp_forward n0 = example_net 2" "mlp_forward n1 = example_net 2"
    using example_mlps(1) [of nc] by (auto simp: map_eq_Cons_conv)
  show ?thesis
    by (simp add: example_columns nets f example_net_def embedding_forward_def)
qed

lemma example_prefix: "prefix (example_encoder nc) = ''enc''"
  by (simp add: example_encoder_def CategoricalMLP_def Let_def)

lemma example_features:
  "forward_body (example_encoder nc) [[0, 0], [2, 1]] =
     (case head_forward (head (example_encoder nc)) [[16, 16], [12, 12]] of
        Inl err \<Rightarrow> Inl err
      | Inr logits \<Rightarrow>
          Inr \<lparr>fo_prefix = ''enc'', fo_logits = logits, fo_features = [[16, 16], [12, 12]]\<rparr>)"
  by (simp add: forward_body_def example_column_features torch_cat_dim1_def upt_small
      example_mlps example_net_def example_prefix split: sum.split)

lemma example_key:
  "example_batch (categorical_key (example_encoder nc)) = Some [[0, 0], [2, 1]]"
  "example_batch3 (categorical_key (example_encoder nc)) = Some [[0, 0], [2, 1], [0, 0]]"
  by (simp_all add: example_batch_def example_batch3_def categorical_key_def CATEGORICAL_def
      example_encoder_def CategoricalMLP_def Let_def)

lemma example_forward:
  "forward (example_encoder 3) example_batch =
     Inr \<lparr>fo_prefix = ''enc'', fo_logits = [[32, 33, 34], [24, 25, 26]],
          fo_features = [[16, 16], [12, 12]]\<rparr>"
  "forward (example_encoder 0) example_batch =
     Inr \<lparr>fo_prefix = ''enc'', fo_logits = [[16, 16], [12, 12]],
          fo_features = [[16, 16], [12, 12]]\<rparr>"
  "forward (example_encoder (- 3)) example_batch =
     Inr \<lparr>fo_prefix = ''enc'', fo_logits = [[16, 16], [12, 12]],
          fo_features = [[16, 16], [12, 12]]\<rparr>"
  "forward (example_encoder 3) example_batch3 = Inl AssertionError"
  by (simp_all add: forward_def example_key example_columns example_features example_head
      head_forward_def linear_forward_def upt_small)

subsection \<open>Construction and forward pass\<close>

lemma CategoricalMLP_head:
  "head (CategoricalMLP P pre cats n opts num_classes) =
     (if num_classes > 0
      then Linear (Linear_layer (p_head_weight P) (p_head_bias P) n (nat num_classes))
      else Identity)"
  by (simp add: CategoricalMLP_def Let_def)

lemma CategoricalMLP_columns:
  "length (column_embeddings (CategoricalMLP P pre cats n opts num_classes)) = length cats"
  "length (column_mlps (CategoricalMLP P pre cats n opts num_classes)) = length cats"
  by (simp_all add: CategoricalMLP_def Let_def)

lemma CategoricalMLP_nets:
  "net \<in> set (column_mlps (CategoricalMLP P pre cats n opts num_classes)) \<Longrightarrow>
     \<exists>k a. mlp_forward net = p_mlp P k a"
  "\<exists>k a. mlp_forward (aggregator_mlp (CategoricalMLP P pre cats n opts num_classes)) = p_mlp P k a"
  by (fastforce simp: CategoricalMLP_def Let_def MLP_def)+

lemma Linear_layer_shape:
  "lin_in_features (Linear_layer w b n_in n_out) = n_in"
  "lin_out_features (Linear_layer w b n_in n_out) = n_out"
  "length (lin_weight (Linear_layer w b n_in n_out)) = n_out"
  "\<forall>row \<in> set (lin_weight (Linear_layer w b n_in n_out)). length row = n_in"
  "length (lin_bias (Linear_layer w b n_in n_out)) = n_out"
  by (auto simp: Linear_layer_def)

lemma linear_forward_shape:
  "linear_forward L x = Inr y \<Longrightarrow>
     length y = length x \<and> (\<forall>row \<in> set y. length row = lin_out_features L)"
  by (auto simp: linear_forward_def split: if_splits)

lemma forward_Inr:
  assumes "forward m batch = Inr res"
  shows "\<exists>ids. batch (categorical_key m) = Some ids \<and>
           length ids = length (column_embeddings m) \<and>
           head_forward (head m) (fo_features res) = Inr (fo_logits res) \<and>
           fo_prefix res = prefix m"
  using assms
  by (auto simp: forward_def forward_body_def split: option.splits if_splits sum.splits)

lemma forward_identity:
  "head m = Identity \<Longrightarrow> forward m batch = Inr res \<Longrightarrow> fo_logits res = fo_features res"
  by (drule forward_Inr) (auto simp: head_forward_def)

lemma forward_linear:
  "head m = Linear L \<Longrightarrow> forward m batch = Inr res \<Longrightarrow>
     length (fo_logits res) = length (fo_features res) \<and>
     (\<forall>row \<in> set (fo_logits res). length row = lin_out_features L)"
  by (drule forward_Inr) (auto simp: head_forward_def dest: linear_forward_shape)

lemma column_features_error:
  "column_features zs = Inl err \<Longrightarrow>
     err = IndexError \<or> (\<exists>z \<in> set zs. \<exists>x. mlp_forward (snd (snd z)) x = Inl err)"
proof (induction zs)
  case Nil
  then show ?case by simp
next
  case (Cons z zs)
  obtain ids emb net where z: "z = (ids, emb, net)" by (cases z)
  from Cons.prems Cons.IH show ?case
    unfolding z
    by (auto simp: embedding_forward_def split: sum.splits if_splits)
qed

lemma forward_body_error:
  assumes "forward_body m ids = Inl err"
  shows "err = IndexError \<or> err = RuntimeError \<or>
         (\<exists>net \<in> set (column_mlps m) \<union> {aggregator_mlp m}. \<exists>x. mlp_forward net x = Inl err)"
proof -
  let ?zs = "zip ids (zip (column_embeddings m) (column_mlps m))"
  have nets: "snd (snd z) \<in> set (column_mlps m)" if "z \<in> set ?zs" for z
  proof -
    obtain a b c where z: "z = (a, b, c)" by (cases z)
    with that have "(b, c) \<in> set (zip (column_embeddings m) (column_mlps m))"
      by (auto dest: set_zip_rightD)
    then have "c \<in> set (column_mlps m)" by (rule set_zip_rightD)
    with z show ?thesis by simp
  qed
  show ?thesis
  proof (cases "column_features ?zs")
    case (Inl e)
    with assms have "e = err" by (simp add: forward_body_def)
    with column_features_error [OF Inl] nets show ?thesis by blast
  next
    case (Inr features)
    with assms show ?thesis
      by (auto simp: forward_body_def torch_cat_dim1_def head_forward_def linear_forward_def
          split: sum.splits list.splits if_splits head_module.splits)
  qed
qed

subsection \<open>The statements\<close>

text \<open>
  \<^bold>\<open>C1\<close>, as the specification states it, fails: for a column with 3 categories
  \<open>1.6 * 3 powr 0.56\<close> lies between 2.5 and 3, so the code's \<^verbatim>\<open>int\<close> gives width 2 where
  rounding gives 3.
\<close>

theorem embedding_width_rounds_counterexample:
  "embedding_dim_per_col 3 \<noteq> spec_embedding_width 3"
  by (simp add: width_3 spec_3)

text \<open>
  \<^bold>\<open>C1\<close>, amended. The width is the clamped value \<open>max 2 (min 100 (1.6 * c powr 0.56))\<close>
  truncated, not rounded. It lies between 2 and 100; cardinality 1 gives 2; when
  \<open>1.6 * c powr 0.56\<close> is at least 100 it is 100; in between it is \<open>1.6 * c powr 0.56\<close>
  rounded down, which is the rounded value of the specification or one less; and it
  grows with the cardinality.
\<close>

theorem embedding_width_truncates:
  "embedding_dim_per_col c = \<lfloor>max 2 (min 100 (1.6 * real c powr 0.56))\<rfloor> \<and>
   2 \<le> embedding_dim_per_col c \<and> embedding_dim_per_col c \<le> 100 \<and>
   embedding_dim_per_col 1 = 2 \<and>
   (100 \<le> 1.6 * real c powr 0.56 \<longrightarrow> embedding_dim_per_col c = 100) \<and>
   (2 \<le> 1.6 * real c powr 0.56 \<and> 1.6 * real c powr 0.56 \<le> 100 \<longrightarrow>
      real_of_int (embedding_dim_per_col c) \<le> 1.6 * real c powr 0.56 \<and>
      1.6 * real c powr 0.56 < real_of_int (embedding_dim_per_col c) + 1) \<and>
   spec_embedding_width c - 1 \<le> embedding_dim_per_col c \<and>
   embedding_dim_per_col c \<le> spec_embedding_width c \<and>
   (c \<le> c' \<longrightarrow> embedding_dim_per_col c \<le> embedding_dim_per_col c')"
proof -
  let ?v = "1.6 * real c powr 0.56"
  have f: "embedding_dim_per_col c = \<lfloor>max 2 (min 100 ?v)\<rfloor>"
    by (simp add: width_floor clamped_def)
  have lo: "2 \<le> embedding_dim_per_col c" and hi: "embedding_dim_per_col c \<le> 100"
    using clamped_bounds [of c] unfolding width_floor by linarith+
  have cap: "embedding_dim_per_col c = 100" if "100 \<le> ?v"
    using that by (simp add: width_floor clamped_def max_def min_def)
  have mid: "real_of_int (embedding_dim_per_col c) \<le> ?v \<and>
      ?v < real_of_int (embedding_dim_per_col c) + 1" if "2 \<le> ?v \<and> ?v \<le> 100"
  proof -
    from that have "clamped c = ?v" by (simp add: clamped_def max_def min_def)
    then show ?thesis unfolding width_floor by linarith
  qed
  have near: "spec_embedding_width c - 1 \<le> embedding_dim_per_col c"
    "embedding_dim_per_col c \<le> spec_embedding_width c"
    unfolding width_floor spec_round round_def by linarith+
  have mono: "embedding_dim_per_col c \<le> embedding_dim_per_col c'" if "c \<le> c'"
    unfolding width_floor by (intro floor_mono clamped_mono that)
  from f lo hi width_1 cap mid near mono show ?thesis by blast
qed

theorem embedding_width_truncates_witness:
  "(2::real) \<le> 1.6 * real 3 powr 0.56 \<and> 1.6 * real 3 powr 0.56 \<le> 100 \<and>
   real_of_int (embedding_dim_per_col 3) \<le> 1.6 * real 3 powr 0.56 \<and>
   1.6 * real 3 powr 0.56 < real_of_int (embedding_dim_per_col 3) + 1 \<and>
   embedding_dim_per_col 3 = 2 \<and> spec_embedding_width 3 = 3 \<and>
   (100::real) \<le> 1.6 * real 4000 powr 0.56 \<and> embedding_dim_per_col 4000 = 100 \<and>
   (3::nat) \<le> 4000 \<and> embedding_dim_per_col 3 \<le> embedding_dim_per_col 4000"
proof -
  have a: "(2::real) \<le> 1.6 * real 3 powr 0.56 \<and> 1.6 * real 3 powr 0.56 \<le> 100"
    using bounds_3 by simp
  have b: "(100::real) \<le> 1.6 * real 4000 powr 0.56"
    using bounds_4000 by simp
  from embedding_width_truncates [of 3 4000] embedding_width_truncates [of 4000 4000] a b
    width_3 spec_3
  show ?thesis by simp
qed

text \<open>
  \<^bold>\<open>C3.\<close> Built with class count 0, the encoder has the identity as its head, and every
  forward pass that returns gives logits equal to the features. Built with a class count
  above 0, the head is a linear layer from the output width to the class count, and
  every forward pass that returns gives logits with one row per row of the features and
  exactly class-count columns.
\<close>

theorem head_identity_or_linear:
  "(num_classes = 0 \<longrightarrow>
      head (CategoricalMLP P pre cats n opts num_classes) = Identity \<and>
      (\<forall>batch res. forward (CategoricalMLP P pre cats n opts num_classes) batch = Inr res \<longrightarrow>
         fo_logits res = fo_features res)) \<and>
   (num_classes > 0 \<longrightarrow>
      (\<exists>L. head (CategoricalMLP P pre cats n opts num_classes) = Linear L \<and>
         lin_in_features L = n \<and> lin_out_features L = nat num_classes \<and>
         length (lin_weight L) = nat num_classes \<and>
         (\<forall>row \<in> set (lin_weight L). length row = n)) \<and>
      (\<forall>batch res. forward (CategoricalMLP P pre cats n opts num_classes) batch = Inr res \<longrightarrow>
         length (fo_logits res) = length (fo_features res) \<and>
         (\<forall>row \<in> set (fo_logits res). int (length row) = num_classes)))"
proof (intro conjI impI allI)
  assume "num_classes = 0"
  then show id: "head (CategoricalMLP P pre cats n opts num_classes) = Identity"
    by (simp add: CategoricalMLP_head)
  fix batch res
  assume "forward (CategoricalMLP P pre cats n opts num_classes) batch = Inr res"
  from forward_identity [OF id this] show "fo_logits res = fo_features res" .
next
  assume pos: "num_classes > 0"
  let ?L = "Linear_layer (p_head_weight P) (p_head_bias P) n (nat num_classes)"
  from pos have h: "head (CategoricalMLP P pre cats n opts num_classes) = Linear ?L"
    by (simp add: CategoricalMLP_head)
  with Linear_layer_shape [of "p_head_weight P" "p_head_bias P" n "nat num_classes"]
  show "\<exists>L. head (CategoricalMLP P pre cats n opts num_classes) = Linear L \<and>
         lin_in_features L = n \<and> lin_out_features L = nat num_classes \<and>
         length (lin_weight L) = nat num_classes \<and>
         (\<forall>row \<in> set (lin_weight L). length row = n)"
    by blast
  fix batch res
  assume "forward (CategoricalMLP P pre cats n opts num_classes) batch = Inr res"
  from forward_linear [OF h this] pos
  show "length (fo_logits res) = length (fo_features res)"
    "\<forall>row \<in> set (fo_logits res). int (length row) = num_classes"
    by (auto simp: Linear_layer_shape)
qed

theorem head_identity_or_linear_witness:
  "forward (example_encoder 0) example_batch =
     Inr \<lparr>fo_prefix = ''enc'', fo_logits = [[16, 16], [12, 12]],
          fo_features = [[16, 16], [12, 12]]\<rparr> \<and>
   head (example_encoder 0) = Identity \<and>
   forward (example_encoder 3) example_batch =
     Inr \<lparr>fo_prefix = ''enc'', fo_logits = [[32, 33, 34], [24, 25, 26]],
          fo_features = [[16, 16], [12, 12]]\<rparr> \<and>
   (\<exists>L. head (example_encoder 3) = Linear L \<and> lin_in_features L = 2 \<and> lin_out_features L = 3) \<and>
   list_all (\<lambda>row. int (length row) = 3) [[32, 33, 34], [24, 25, 26 :: real]]"
proof -
  note t0 = head_identity_or_linear [where num_classes = 0 and P = example_params
      and pre = "''enc''" and cats = "[(''colour'', 1), (''size'', 3)]" and n = 2
      and opts = example_options, folded example_encoder_def]
  note t3 = head_identity_or_linear [where num_classes = 3 and P = example_params
      and pre = "''enc''" and cats = "[(''colour'', 1), (''size'', 3)]" and n = 2
      and opts = example_options, folded example_encoder_def]
  from t0 have "head (example_encoder 0) = Identity" by simp
  moreover from t3 have
    "\<exists>L. head (example_encoder 3) = Linear L \<and> lin_in_features L = 2 \<and> lin_out_features L = 3"
    by auto
  ultimately show ?thesis using example_forward by simp
qed

text \<open>
  \<^bold>\<open>C5.\<close> For a batch that holds index tensors under the encoder's key, and networks
  that raise no assertion error of their own, the forward pass fails with an assertion
  error exactly when the number of index tensors differs from the number of columns the
  encoder was built with. When the numbers agree, the forward pass is the computation
  after the assertion, with no further check of the encoder's own: what fails then is an
  index outside an embedding table, a shape the tensor library refuses, or a network.
\<close>

theorem forward_assertion:
  assumes "batch (categorical_key (CategoricalMLP P pre cats n opts num_classes)) = Some ids"
    and "\<forall>k a x. p_mlp P k a x \<noteq> Inl AssertionError"
  shows "(forward (CategoricalMLP P pre cats n opts num_classes) batch = Inl AssertionError
            \<longleftrightarrow> length ids \<noteq> length cats) \<and>
         (length ids = length cats \<longrightarrow>
            forward (CategoricalMLP P pre cats n opts num_classes) batch =
              forward_body (CategoricalMLP P pre cats n opts num_classes) ids)"
proof -
  let ?m = "CategoricalMLP P pre cats n opts num_classes"
  have body: "forward_body ?m ids \<noteq> Inl AssertionError"
  proof
    assume "forward_body ?m ids = Inl AssertionError"
    from forward_body_error [OF this] obtain net x where
      "net \<in> set (column_mlps ?m) \<union> {aggregator_mlp ?m}" "mlp_forward net x = Inl AssertionError"
      by auto
    moreover from this(1) CategoricalMLP_nets(1) [of net P pre cats n opts num_classes]
      CategoricalMLP_nets(2) [of P pre cats n opts num_classes]
    obtain k a where "mlp_forward net = p_mlp P k a" by auto
    ultimately show False using assms(2) by simp
  qed
  from assms(1) have "forward ?m batch =
      (if length ids = length cats then forward_body ?m ids else Inl AssertionError)"
    by (simp add: forward_def CategoricalMLP_columns)
  with body show ?thesis by simp
qed

theorem forward_assertion_witness:
  "example_batch (categorical_key (example_encoder 3)) = Some [[0, 0], [2, 1]] \<and>
   example_batch3 (categorical_key (example_encoder 3)) = Some [[0, 0], [2, 1], [0, 0]] \<and>
   forward (example_encoder 3) example_batch3 = Inl AssertionError \<and>
   forward (example_encoder 3) example_batch \<noteq> Inl AssertionError \<and>
   forward (example_encoder 3) example_batch =
     forward_body (example_encoder 3) [[0, 0], [2, 1]]"
proof -
  have mlp: "\<forall>k a x. p_mlp example_params k a x \<noteq> Inl AssertionError"
    by (simp add: example_params_def)
  note t = forward_assertion [where P = example_params and pre = "''enc''"
      and cats = "[(''colour'', 1), (''size'', 3)]" and n = 2 and opts = example_options
      and num_classes = 3, folded example_encoder_def]
  from t [where batch = example_batch and ids = "[[0, 0], [2, 1]]", OF example_key(1) mlp]
    t [where batch = example_batch3 and ids = "[[0, 0], [2, 1], [0, 0]]", OF example_key(2) mlp]
    example_key [of 3]
  show ?thesis by auto
qed

text \<open>
  \<^bold>\<open>C10.\<close> Built with any class count that is not positive, negative ones included,
  the encoder has the identity as its head, and every forward pass that returns gives
  logits equal to the features.
\<close>

theorem nonpositive_classes_identity:
  assumes "num_classes \<le> 0"
  shows "head (CategoricalMLP P pre cats n opts num_classes) = Identity \<and>
         (\<forall>batch res. forward (CategoricalMLP P pre cats n opts num_classes) batch = Inr res \<longrightarrow>
            fo_logits res = fo_features res)"
proof -
  from assms have "head (CategoricalMLP P pre cats n opts num_classes) = Identity"
    by (simp add: CategoricalMLP_head)
  with forward_identity show ?thesis by blast
qed

theorem nonpositive_classes_identity_witness:
  "(- 3 :: int) \<le> 0 \<and> head (example_encoder (- 3)) = Identity \<and>
   forward (example_encoder (- 3)) example_batch =
     Inr \<lparr>fo_prefix = ''enc'', fo_logits = [[16, 16], [12, 12]],
          fo_features = [[16, 16], [12, 12]]\<rparr>"
proof -
  have "(- 3 :: int) \<le> 0" by simp
  from nonpositive_classes_identity [OF this, of example_params "''enc''"
      "[(''colour'', 1), (''size'', 3)]" 2 example_options, folded example_encoder_def]
    example_forward(3)
  show ?thesis by simp
qed

end
